theory Spec2Isabelle
  imports Main "HOL-Library.Sublist" "HOL-Library.Product_Lexorder"
begin

section \<open>Python strings\<close>

text \<open>
  The helpers of \<^verbatim>\<open>str\<close> that the scripts use: \<^verbatim>\<open>str(n)\<close> of an integer,
  \<^verbatim>\<open>.strip()\<close>, \<^verbatim>\<open>.lower()\<close> and the substring test \<^verbatim>\<open>t in s\<close>.
  A Python string is represented by its UTF-8 encoding, one \<open>char\<close> per byte.
\<close>

definition digit_char :: "nat \<Rightarrow> char" where
  "digit_char d = char_of (48 + d)"

fun dec :: "nat \<Rightarrow> string" where
  "dec n = (if n < 10 then [digit_char n] else dec (n div 10) @ [digit_char (n mod 10)])"

declare dec.simps [simp del]

definition str_int :: "int \<Rightarrow> string" where
  "str_int k = (if k < 0 then CHR ''-'' # dec (nat (- k)) else dec (nat k))"

text \<open>
  \<^verbatim>\<open>str.strip()\<close> removes the characters for which \<^verbatim>\<open>str.isspace\<close> holds from both
  ends: the ASCII ones (space, 0x09 to 0x0D, 0x1C to 0x1F), U+0085 and U+00A0 (two bytes
  each), and U+1680, U+2000 to U+200A, U+2028, U+2029, U+202F, U+205F and U+3000
  (three bytes each).
\<close>

definition is_space :: "char \<Rightarrow> bool" where
  "is_space c = (c \<in> set [CHR '' '', CHR 0x09, CHR 0x0A, CHR 0x0B, CHR 0x0C, CHR 0x0D,
                          CHR 0x1C, CHR 0x1D, CHR 0x1E, CHR 0x1F])"

definition is_space2 :: "char \<Rightarrow> char \<Rightarrow> bool" where
  "is_space2 a b = (a = CHR 0xC2 \<and> (b = CHR 0x85 \<or> b = CHR 0xA0))"

definition is_space3 :: "char \<Rightarrow> char \<Rightarrow> char \<Rightarrow> bool" where
  "is_space3 a b c =
     ((a = CHR 0xE1 \<and> b = CHR 0x9A \<and> c = CHR 0x80)
      \<or> (a = CHR 0xE2 \<and> b = CHR 0x80
           \<and> ((0x80 \<le> (of_char c :: nat) \<and> (of_char c :: nat) \<le> 0x8A)
                \<or> c = CHR 0xA8 \<or> c = CHR 0xA9 \<or> c = CHR 0xAF))
      \<or> (a = CHR 0xE2 \<and> b = CHR 0x81 \<and> c = CHR 0x9F)
      \<or> (a = CHR 0xE3 \<and> b = CHR 0x80 \<and> c = CHR 0x80))"

fun lstrip :: "string \<Rightarrow> string" where
  "lstrip (a # b # c # s) =
     (if is_space a then lstrip (b # c # s)
      else if is_space2 a b then lstrip (c # s)
      else if is_space3 a b c then lstrip s
      else a # b # c # s)"
| "lstrip [a, b] = (if is_space a then lstrip [b] else if is_space2 a b then [] else [a, b])"
| "lstrip [a] = (if is_space a then [] else [a])"
| "lstrip [] = []"

text \<open>The same from the right, on the reversed string: the bytes of a character come last first.\<close>

fun lstrip_rev :: "string \<Rightarrow> string" where
  "lstrip_rev (c # b # a # s) =
     (if is_space c then lstrip_rev (b # a # s)
      else if is_space2 b c then lstrip_rev (a # s)
      else if is_space3 a b c then lstrip_rev s
      else c # b # a # s)"
| "lstrip_rev [c, b] = (if is_space c then lstrip_rev [b] else if is_space2 b c then [] else [c, b])"
| "lstrip_rev [c] = (if is_space c then [] else [c])"
| "lstrip_rev [] = []"

definition py_strip :: "string \<Rightarrow> string" where
  "py_strip s = rev (lstrip_rev (rev (lstrip s)))"

text \<open>
  \<^verbatim>\<open>str.lower()\<close> on the ASCII capitals; other bytes are left as they are. The scripts
  only search the lowered text for the ASCII words \<open>date\<close>, \<open>time\<close>, \<open>tme\<close>, \<open>tim\<close>.
\<close>

definition lower_char :: "char \<Rightarrow> char" where
  "lower_char c = (let n = (of_char c :: nat) in if 65 \<le> n \<and> n \<le> 90 then char_of (n + 32) else c)"

definition py_lower :: "string \<Rightarrow> string" where
  "py_lower s = map lower_char s"

fun contains :: "string \<Rightarrow> string \<Rightarrow> bool" where
  "contains t [] = (t = [])"
| "contains t (c # cs) = (prefix t (c # cs) \<or> contains t cs)"

section \<open>Header normalisation: \<^verbatim>\<open>_process_headers\<close>\<close>

text \<open>
  A raw header cell as openpyxl returns it with \<^verbatim>\<open>values_only=True\<close>: \<^verbatim>\<open>None\<close>,
  a string, or a number (integers here; \<^verbatim>\<open>str\<close> of a float is not modelled).
\<close>

datatype hcell = HNone | HStr string | HInt int

fun str_of :: "hcell \<Rightarrow> string" where
  "str_of HNone = ''None''"
| "str_of (HStr s) = s"
| "str_of (HInt k) = str_int k"

fun truthy :: "hcell \<Rightarrow> bool" where
  "truthy HNone = False"
| "truthy (HStr s) = (s \<noteq> [])"
| "truthy (HInt k) = (k \<noteq> 0)"

definition subheader_str :: "hcell \<Rightarrow> string" where
  "subheader_str subheader = (if truthy subheader then py_lower (py_strip (str_of subheader)) else [])"

definition any_time :: "string \<Rightarrow> bool" where
  "any_time s = (\<exists>t \<in> set [''time'', ''tme'', ''tim'']. contains t s)"

text \<open>
  The first two blocks of the loop body: the name of position \<open>i\<close> before deduplication,
  and the new value of \<^verbatim>\<open>prev_main_header\<close>.
\<close>

definition header_name :: "nat \<Rightarrow> string option \<Rightarrow> hcell \<Rightarrow> hcell \<Rightarrow> string \<times> string option" where
  "header_name i prev_main_header header subheader =
     (let (h1, prev') =
        (if header = HNone then
           (if prev_main_header = Some ''Scheduled APPT'' \<and> any_time (subheader_str subheader)
            then ''Scheduled Time'' else ''Unnamed_'' @ dec i, prev_main_header)
         else (py_strip (str_of header), Some (py_strip (str_of header))));
          h2 = (if h1 = ''Scheduled APPT'' then
                  (if contains ''date'' (subheader_str subheader) then ''Scheduled Date''
                   else if any_time (subheader_str subheader) then ''Scheduled Time''
                   else h1)
                else h1)
      in (h2, prev'))"

text \<open>The third block: the collision counter \<^verbatim>\<open>seen_headers\<close>.\<close>

definition dedup :: "(string \<rightharpoonup> nat) \<Rightarrow> string \<Rightarrow> string \<times> (string \<rightharpoonup> nat)" where
  "dedup seen_headers header =
     (case seen_headers header of
        Some n \<Rightarrow> (header @ ''_'' @ dec (Suc n), seen_headers(header \<mapsto> Suc n))
      | None \<Rightarrow> (header, seen_headers(header \<mapsto> 0)))"

fun headers_loop :: "nat \<Rightarrow> (string \<rightharpoonup> nat) \<Rightarrow> string option \<Rightarrow> (hcell \<times> hcell) list \<Rightarrow> string list" where
  "headers_loop i seen_headers prev_main_header [] = []"
| "headers_loop i seen_headers prev_main_header ((header, subheader) # rest) =
     (let (h, prev') = header_name i prev_main_header header subheader;
          (h', seen') = dedup seen_headers h
      in h' # headers_loop (Suc i) seen' prev' rest)"

definition process_headers :: "hcell list \<Rightarrow> hcell list \<Rightarrow> string list" where
  "process_headers header_row subheader_row = headers_loop 0 Map.empty None (zip header_row subheader_row)"

text \<open>
  The spec's words for the state the scan carries: the most recently seen non-null
  primary header, trimmed, among the cells to the left of a position.
\<close>

fun last_seen_primary :: "string option \<Rightarrow> hcell list \<Rightarrow> string option" where
  "last_seen_primary p [] = p"
| "last_seen_primary p (h # hs) =
     last_seen_primary (if h = HNone then p else Some (py_strip (str_of h))) hs"

text \<open>
  The names before deduplication: the loop without its third block. In the spec's words
  the first occurrence of a name stays unsuffixed and the occurrence after \<open>k\<close> earlier
  ones gets the suffix \<open>_k\<close>.
\<close>

fun header_candidates :: "nat \<Rightarrow> string option \<Rightarrow> (hcell \<times> hcell) list \<Rightarrow> string list" where
  "header_candidates i p [] = []"
| "header_candidates i p ((header, subheader) # rest) =
     fst (header_name i p header subheader)
       # header_candidates (Suc i) (snd (header_name i p header subheader)) rest"

definition suffixed :: "nat \<Rightarrow> string \<Rightarrow> string" where
  "suffixed k c = (if k = 0 then c else c @ ''_'' @ dec k)"

definition occurrences :: "(string \<rightharpoonup> nat) \<Rightarrow> string \<Rightarrow> nat" where
  "occurrences seen_headers c = (case seen_headers c of None \<Rightarrow> 0 | Some n \<Rightarrow> Suc n)"

section \<open>Dates and the reference window\<close>

text \<open>
  A \<^verbatim>\<open>datetime\<close> is (year, month, day, time of day); Python compares datetimes
  field by field, which is the lexicographic order on the tuple. \<^verbatim>\<open>today\<close> is read
  from the clock; it is a parameter here, the same for the whole run. Years start at 2, so
  that the day before the first of January exists.
\<close>

type_synonym datetime = "nat \<times> nat \<times> nat \<times> nat"

definition is_leap :: "nat \<Rightarrow> bool" where
  "is_leap y = (y mod 4 = 0 \<and> (y mod 100 \<noteq> 0 \<or> y mod 400 = 0))"

definition days_in_month :: "nat \<Rightarrow> nat \<Rightarrow> nat" where
  "days_in_month y m =
     (if m = 2 then (if is_leap y then 29 else 28)
      else if m \<in> {4, 6, 9, 11} then 30 else 31)"

definition minus_one_day :: "datetime \<Rightarrow> datetime" where
  "minus_one_day dt =
     (case dt of (y, m, d, t) \<Rightarrow>
        if 1 < d then (y, m, d - 1, t)
        else if 1 < m then (y, m - 1, days_in_month y (m - 1), t)
        else (y - 1, 12, 31, t))"

definition first_day_this_month :: "datetime \<Rightarrow> datetime" where
  "first_day_this_month today = (case today of (y, m, d, t) \<Rightarrow> (y, m, 1, 0))"

definition last_day_prev_month :: "datetime \<Rightarrow> datetime" where
  "last_day_prev_month today = minus_one_day (first_day_this_month today)"

definition first_day_prev_month :: "datetime \<Rightarrow> datetime" where
  "first_day_prev_month today = (case last_day_prev_month today of (y, m, d, t) \<Rightarrow> (y, m, 1, 0))"

section \<open>Data frames\<close>

text \<open>
  A cell is missing (\<^verbatim>\<open>None\<close>, \<^verbatim>\<open>NaN\<close>, \<^verbatim>\<open>NaT\<close>, \<^verbatim>\<open>pd.NA\<close>), a timestamp, or
  any other scalar (a string, a number), kept as its text. A frame is the list of its
  labelled columns, in order; labels may repeat, as in pandas.
\<close>

datatype cell = Null | Stamp datetime | Other string

type_synonym frame = "(string \<times> cell list) list"

datatype error = KeyError | TypeError | ValueError | DuplicateLabel | NoDataProcessed

definition columns :: "frame \<Rightarrow> string list" where
  "columns df = map fst df"

definition nrows :: "frame \<Rightarrow> nat" where
  "nrows df = (case df of [] \<Rightarrow> 0 | (c, vs) # rest \<Rightarrow> length vs)"

definition well_formed :: "frame \<Rightarrow> bool" where
  "well_formed df = list_all (\<lambda>(c, vs). length vs = nrows df) df"

text \<open>
  \<^verbatim>\<open>df[c]\<close>: \<^verbatim>\<open>KeyError\<close> for an absent label. For a repeated label pandas returns
  a sub-frame instead of a series, and what the scripts then do with it either raises or
  is no longer a column operation; the model stops there with \<open>DuplicateLabel\<close>.
\<close>

definition getitem :: "frame \<Rightarrow> string \<Rightarrow> error + cell list" where
  "getitem df c =
     (case filter (\<lambda>(n, vs). n = c) df of
        [] \<Rightarrow> Inl KeyError
      | [(n, vs)] \<Rightarrow> Inr vs
      | _ \<Rightarrow> Inl DuplicateLabel)"

text \<open>\<^verbatim>\<open>df[c] = vs\<close>: every column carrying the label is replaced; a new label is appended.\<close>

definition setitem :: "frame \<Rightarrow> string \<Rightarrow> cell list \<Rightarrow> frame" where
  "setitem df c vs =
     (if c \<in> set (columns df) then map (\<lambda>(n, old). if n = c then (n, vs) else (n, old)) df
      else df @ [(c, vs)])"

text \<open>\<^verbatim>\<open>df[mask]\<close>: the rows whose mask entry is true, in every column.\<close>

definition select_rows :: "bool list \<Rightarrow> frame \<Rightarrow> frame" where
  "select_rows keep df = map (\<lambda>(n, vs). (n, map fst (filter snd (zip vs keep)))) df"

definition bind :: "error + 'a \<Rightarrow> ('a \<Rightarrow> error + 'b) \<Rightarrow> error + 'b" where
  "bind r f = (case r of Inl e \<Rightarrow> Inl e | Inr x \<Rightarrow> f x)"

fun map_err :: "('a \<Rightarrow> error + 'b) \<Rightarrow> 'a list \<Rightarrow> error + 'b list" where
  "map_err f [] = Inr []"
| "map_err f (x # xs) = bind (f x) (\<lambda>y. bind (map_err f xs) (\<lambda>ys. Inr (y # ys)))"

section \<open>Temporal filter: \<^verbatim>\<open>_apply_date_filters\<close>\<close>

definition lower_cutoff :: datetime where
  "lower_cutoff = (2000, 1, 1, 0)"

definition upper_cutoff :: "datetime \<Rightarrow> datetime" where
  "upper_cutoff today = (case today of (y, m, d, t) \<Rightarrow> (y, m, 1, 0))"

definition early_cutoff :: datetime where
  "early_cutoff = (2000, 1, 31, 0)"

definition first_of_prev_month :: "datetime \<Rightarrow> datetime" where
  "first_of_prev_month today =
     (case today of (y, m, d, t) \<Rightarrow> if 1 < m then (y, m - 1, 1, 0) else (y - 1, 12, 1, 0))"

text \<open>
  The mask \<^verbatim>\<open>(df[c] > lower_cutoff) & (df[c] < upper_cutoff)\<close> at one cell: a comparison
  with a missing value is false; comparing a non-date scalar with a timestamp raises.
\<close>

fun arrived_mask :: "datetime \<Rightarrow> cell \<Rightarrow> error + bool" where
  "arrived_mask today Null = Inr False"
| "arrived_mask today (Stamp x) = Inr (lower_cutoff < x \<and> x < upper_cutoff today)"
| "arrived_mask today (Other s) = Inl TypeError"

fun storage_ends_mask :: "datetime \<Rightarrow> cell \<Rightarrow> error + bool" where
  "storage_ends_mask today Null = Inr True"
| "storage_ends_mask today (Stamp x) = Inr (x \<le> early_cutoff \<or> first_of_prev_month today \<le> x)"
| "storage_ends_mask today (Other s) = Inl TypeError"

definition filter_arrived :: "datetime \<Rightarrow> frame \<Rightarrow> error + frame" where
  "filter_arrived today df =
     (if ''Arrived @ Warehouse'' \<in> set (columns df) then
        bind (getitem df ''Arrived @ Warehouse'') (\<lambda>vs.
        bind (map_err (arrived_mask today) vs) (\<lambda>keep. Inr (select_rows keep df)))
      else Inr df)"

definition filter_storage_ends :: "datetime \<Rightarrow> frame \<Rightarrow> error + frame" where
  "filter_storage_ends today df =
     (if ''Storage Ends'' \<in> set (columns df) then
        bind (getitem df ''Storage Ends'') (\<lambda>vs.
        bind (map_err (storage_ends_mask today) vs) (\<lambda>keep. Inr (select_rows keep df)))
      else Inr df)"

definition apply_date_filters :: "datetime \<Rightarrow> frame \<Rightarrow> error + frame" where
  "apply_date_filters today df = bind (filter_arrived today df) (filter_storage_ends today)"

section \<open>Storage period: \<^verbatim>\<open>_transform_data\<close> and \<^verbatim>\<open>save_consolidated_report\<close>\<close>

text \<open>
  The lambda both functions apply:
  \<^verbatim>\<open>x if pd.notnull(x) and first <= x <= last else default\<close>.
  A non-null scalar that is not a timestamp cannot be compared with one.
\<close>

fun clamp :: "datetime \<Rightarrow> datetime \<Rightarrow> datetime \<Rightarrow> cell \<Rightarrow> error + cell" where
  "clamp lo hi dflt Null = Inr (Stamp dflt)"
| "clamp lo hi dflt (Stamp x) = Inr (if lo \<le> x \<and> x \<le> hi then Stamp x else Stamp dflt)"
| "clamp lo hi dflt (Other s) = Inl TypeError"

text \<open>
  The storage-period part of \<^verbatim>\<open>_transform_data\<close> (after the conversions and the
  filters): each rule runs only when both of its columns are present.
\<close>

definition storage_starts_rule :: "datetime \<Rightarrow> frame \<Rightarrow> error + frame" where
  "storage_starts_rule today df =
     (if ''Arrived @ Warehouse'' \<in> set (columns df) \<and> ''Storage Starts'' \<in> set (columns df) then
        bind (getitem df ''Arrived @ Warehouse'') (\<lambda>vs.
        bind (map_err (clamp (first_day_prev_month today) (last_day_prev_month today)
                             (first_day_prev_month today)) vs) (\<lambda>ws.
        Inr (setitem df ''Storage Starts'' ws)))
      else Inr df)"

definition storage_ends_rule :: "datetime \<Rightarrow> frame \<Rightarrow> error + frame" where
  "storage_ends_rule today df =
     (if ''Scheduled Date'' \<in> set (columns df) \<and> ''Storage Ends'' \<in> set (columns df) then
        bind (getitem df ''Scheduled Date'') (\<lambda>vs.
        bind (map_err (clamp (first_day_prev_month today) (last_day_prev_month today)
                             (last_day_prev_month today)) vs) (\<lambda>ws.
        Inr (setitem df ''Storage Ends'' ws)))
      else Inr df)"

definition transform_storage_period :: "datetime \<Rightarrow> frame \<Rightarrow> error + frame" where
  "transform_storage_period today df = bind (storage_starts_rule today df) (storage_ends_rule today)"

text \<open>
  \<^verbatim>\<open>pd.to_datetime(..., errors='coerce')\<close> at one cell. What the generic parser makes of
  a scalar is not in the repository: \<open>parse\<close> is a parameter.
\<close>

fun to_datetime :: "(string \<Rightarrow> datetime option) \<Rightarrow> cell \<Rightarrow> cell" where
  "to_datetime parse Null = Null"
| "to_datetime parse (Stamp x) = Stamp x"
| "to_datetime parse (Other s) = (case parse s of None \<Rightarrow> Null | Some x \<Rightarrow> Stamp x)"

text \<open>
  The head of \<^verbatim>\<open>save_consolidated_report\<close>: both source columns are converted and
  both storage columns are assigned, with no test of presence.
\<close>

definition report_storage_period ::
  "(string \<Rightarrow> datetime option) \<Rightarrow> datetime \<Rightarrow> frame \<Rightarrow> error + frame" where
  "report_storage_period parse today df =
     bind (getitem df ''Arrived @ Warehouse'') (\<lambda>a.
     let df1 = setitem df ''Arrived @ Warehouse'' (map (to_datetime parse) a) in
     bind (getitem df1 ''Scheduled Date'') (\<lambda>s.
     let df2 = setitem df1 ''Scheduled Date'' (map (to_datetime parse) s) in
     bind (getitem df2 ''Arrived @ Warehouse'') (\<lambda>a'.
     bind (map_err (clamp (first_day_prev_month today) (last_day_prev_month today)
                          (first_day_prev_month today)) a') (\<lambda>starts.
     let df3 = setitem df2 ''Storage Starts'' starts in
     bind (getitem df3 ''Scheduled Date'') (\<lambda>s'.
     bind (map_err (clamp (first_day_prev_month today) (last_day_prev_month today)
                          (last_day_prev_month today)) s') (\<lambda>ends.
     Inr (setitem df3 ''Storage Ends'' ends)))))))"

section \<open>Consolidation: \<^verbatim>\<open>_consolidate_dataframes\<close>\<close>

definition COLUMN_ORDER :: "string list" where
  "COLUMN_ORDER =
     [''Destination Store'', ''Attention'', ''PO FROM LOBLAW #'',
      ''Shipper Order #'', ''Line Up #'', ''Case #'', ''Case Model #'', ''Serial #'',
      ''Estimated Ship Date'', ''Arrived @ Warehouse'', ''Storage Starts'',
      ''Storage Ends'', ''Scheduled Date'', ''Scheduled Time'', ''Warehouse Location'',
      ''Trailer or Warehouse'', ''Original order #'', ''Original Trailer #'',
      ''Touched / not Touched'', ''Date Stripped'', ''Damage Y / N'',
      ''Delivery Order #'', ''Delivery Trailer #'', ''# Days In Storage'',
      ''Square Footage of Case'', ''Storage Charge'', ''Extended Price'',
      ''Department'', ''LH Gable'', ''RH Gable'', ''No Gable'']"

definition DATE_COLUMNS :: "string list" where
  "DATE_COLUMNS =
     [''Estimated Ship Date'', ''Arrived @ Warehouse'', ''Storage Starts'',
      ''Storage Ends'', ''Scheduled Date'', ''Date Stripped'']"

text \<open>
  \<^verbatim>\<open>all_columns\<close> is a Python set; the list fixes an order of iteration, which plays
  no part in the result.
\<close>

definition all_columns :: "frame list \<Rightarrow> string list" where
  "all_columns data_frames = remdups (concat (map columns data_frames))"

text \<open>\<^verbatim>\<open>for col in missing_cols: df[col] = pd.NA\<close>\<close>

definition widen :: "string list \<Rightarrow> frame \<Rightarrow> frame" where
  "widen cols df =
     df @ map (\<lambda>c. (c, replicate (nrows df) Null)) (filter (\<lambda>c. c \<notin> set (columns df)) cols)"

text \<open>
  \<^verbatim>\<open>df.dropna(axis=1, how='all')\<close>: a column stays when it holds a value. (A frame
  that loses all its columns keeps its row index in pandas and has no rows here; the
  frames of \<^verbatim>\<open>process_file\<close> carry the PO number in every row, so they keep a column.)
\<close>

definition dropna_all :: "frame \<Rightarrow> frame" where
  "dropna_all df = filter (\<lambda>(n, vs). \<exists>v \<in> set vs. v \<noteq> Null) df"

text \<open>
  \<^verbatim>\<open>pd.concat(dfs, ignore_index=True)\<close>. No frames: \<^verbatim>\<open>ValueError\<close>. Frames with one
  and the same column index are stacked position by position. Otherwise the frames are
  aligned on the union of their labels, in order of first appearance, a frame without
  a label contributing missing values; a frame with a repeated label cannot be aligned.
\<close>

definition union_columns :: "frame list \<Rightarrow> string list" where
  "union_columns dfs = rev (remdups (rev (concat (map columns dfs))))"

definition column_or_null :: "frame \<Rightarrow> string \<Rightarrow> cell list" where
  "column_or_null df c = (case map_of df c of Some vs \<Rightarrow> vs | None \<Rightarrow> replicate (nrows df) Null)"

fun concat_frames :: "frame list \<Rightarrow> error + frame" where
  "concat_frames [] = Inl ValueError"
| "concat_frames (df0 # dfs) =
     (if \<forall>df \<in> set dfs. columns df = columns df0 then
        Inr (map (\<lambda>i. (columns df0 ! i, concat (map (\<lambda>df. snd (df ! i)) (df0 # dfs))))
               [0..<length df0])
      else if \<exists>df \<in> set (df0 # dfs). \<not> distinct (columns df) then Inl DuplicateLabel
      else Inr (map (\<lambda>c. (c, concat (map (\<lambda>df. column_or_null df c) (df0 # dfs))))
                  (union_columns (df0 # dfs))))"

text \<open>\<^verbatim>\<open>col.split('_')[0] if '_' in col else col\<close>\<close>

definition clean_column :: "string \<Rightarrow> string" where
  "clean_column col =
     (if CHR ''_'' \<in> set col then takeWhile (\<lambda>c. c \<noteq> CHR ''_'') col else col)"

definition rename_columns :: "frame \<Rightarrow> frame" where
  "rename_columns df = map (\<lambda>(n, vs). (clean_column n, vs)) df"

text \<open>
  \<^verbatim>\<open>format_date_columns\<close>: each date column present is converted and cut to its date.
  The text clean-up of \<open>Scheduled Time\<close> works on the printed form of each cell;
  \<open>format_time\<close> stands for it.
\<close>

fun to_date :: "cell \<Rightarrow> cell" where
  "to_date (Stamp (y, m, d, t)) = Stamp (y, m, d, 0)"
| "to_date c = c"

fun format_dates :: "(string \<Rightarrow> datetime option) \<Rightarrow> string list \<Rightarrow> frame \<Rightarrow> error + frame" where
  "format_dates parse [] df = Inr df"
| "format_dates parse (col # cols) df =
     (if col \<in> set (columns df) then
        bind (getitem df col) (\<lambda>vs.
        format_dates parse cols (setitem df col (map (\<lambda>v. to_date (to_datetime parse v)) vs)))
      else format_dates parse cols df)"

definition format_date_columns ::
  "(string \<Rightarrow> datetime option) \<Rightarrow> (cell \<Rightarrow> cell) \<Rightarrow> frame \<Rightarrow> error + frame" where
  "format_date_columns parse format_time df =
     bind (format_dates parse DATE_COLUMNS df) (\<lambda>df1.
     if ''Scheduled Time'' \<in> set (columns df1) then
       bind (getitem df1 ''Scheduled Time'') (\<lambda>vs.
       Inr (setitem df1 ''Scheduled Time'' (map format_time vs)))
     else Inr df1)"

text \<open>
  \<^verbatim>\<open>consolidated_df[columns_order]\<close>: for each label of the list in turn, every column
  that carries it.
\<close>

definition reorder :: "frame \<Rightarrow> frame" where
  "reorder df =
     concat (map (\<lambda>c. filter (\<lambda>(n, vs). n = c) df)
                 (filter (\<lambda>c. c \<in> set (columns df)) COLUMN_ORDER))"

definition consolidate_dataframes ::
  "(string \<Rightarrow> datetime option) \<Rightarrow> (cell \<Rightarrow> cell) \<Rightarrow> frame list \<Rightarrow> error + frame" where
  "consolidate_dataframes parse format_time data_frames =
     (let dfs_reindexed = map (\<lambda>df. dropna_all (widen (all_columns data_frames) df)) data_frames
      in bind (concat_frames dfs_reindexed) (\<lambda>consolidated_df.
         bind (format_date_columns parse format_time (rename_columns consolidated_df)) (\<lambda>formatted.
         Inr (reorder formatted))))"

section \<open>The driver: \<^verbatim>\<open>process_folders\<close>, \<^verbatim>\<open>save_consolidated_report\<close>, \<^verbatim>\<open>main\<close>\<close>








section \<open>Sheet titles: \<^verbatim>\<open>make_unique_title\<close> and \<^verbatim>\<open>sanitize_sheet_title\<close>\<close>

text \<open>
  Python counts and slices a string by characters. In the encoding the bytes 0x80 to
  0xBF continue a character; every other byte begins one. \<^verbatim>\<open>len(s)\<close> and \<^verbatim>\<open>s[:n]\<close>,
  where a negative bound counts from the end:
\<close>

definition is_continuation :: "char \<Rightarrow> bool" where
  "is_continuation c = (0x80 \<le> (of_char c :: nat) \<and> (of_char c :: nat) < 0xC0)"

definition py_len :: "string \<Rightarrow> nat" where
  "py_len s = length (filter (\<lambda>c. \<not> is_continuation c) s)"

fun take_chars :: "nat \<Rightarrow> string \<Rightarrow> string" where
  "take_chars n [] = []"
| "take_chars n (c # cs) =
     (if is_continuation c then c # take_chars n cs
      else (case n of 0 \<Rightarrow> [] | Suc m \<Rightarrow> c # take_chars m cs))"

definition slice_to :: "int \<Rightarrow> string \<Rightarrow> string" where
  "slice_to n s = (if 0 \<le> n then take_chars (nat n) s else take_chars (py_len s - nat (- n)) s)"

definition suffix_of :: "nat \<Rightarrow> string" where
  "suffix_of i = '' ('' @ dec i @ '')''"

definition candidate :: "string \<Rightarrow> nat \<Rightarrow> string" where
  "candidate base_title i = slice_to (31 - int (py_len (suffix_of i))) base_title @ suffix_of i"

text \<open>
  The set \<^verbatim>\<open>existing\<close> is a list here; the function returns the title together with
  the updated set. The \<^verbatim>\<open>while True\<close> loop may not return, hence the option.
\<close>

partial_function (option) make_unique_loop ::
  "string \<Rightarrow> string list \<Rightarrow> nat \<Rightarrow> (string \<times> string list) option" where
  "make_unique_loop base_title existing i =
     (if candidate base_title i \<notin> set existing
      then Some (candidate base_title i, candidate base_title i # existing)
      else make_unique_loop base_title existing (i + 1))"

declare make_unique_loop.simps [code]

definition make_unique_title :: "string \<Rightarrow> string list \<Rightarrow> (string \<times> string list) option" where
  "make_unique_title base_title existing =
     (let title = (if base_title = [] then ''Sheet'' else base_title)
      in if title \<notin> set existing then Some (title, title # existing)
         else make_unique_loop base_title existing 2)"

definition INVALID_SHEET_CHARS :: "char set" where
  "INVALID_SHEET_CHARS =
     {CHR ''['', CHR '']'', CHR ''*'', CHR ''/'', CHR ''?'', CHR '':'', CHR 0x5C}"

definition strip_apostrophes :: "string \<Rightarrow> string" where
  "strip_apostrophes s =
     rev (dropWhile (\<lambda>c. c = CHR 0x27) (rev (dropWhile (\<lambda>c. c = CHR 0x27) s)))"

text \<open>
  The title before it is made unique: the local \<^verbatim>\<open>s\<close> of \<^verbatim>\<open>sanitize_sheet_title\<close>,
  for a store name that is a string.
\<close>

definition sheet_base :: "string \<Rightarrow> string" where
  "sheet_base name =
     (let s = py_strip name;
          s = map (\<lambda>c. if c \<in> INVALID_SHEET_CHARS then CHR ''-'' else c) s;
          s = strip_apostrophes s
      in if s \<noteq> [] then take_chars 31 s else ''Sheet'')"

definition sanitize_sheet_title :: "string \<Rightarrow> string list \<Rightarrow> (string \<times> string list) option" where
  "sanitize_sheet_title name existing_titles = make_unique_title (sheet_base name) existing_titles"

text \<open>
  The loop over the stores of \<^verbatim>\<open>FormatCSV.py\<close>, as far as titles go: each store is
  given a title, which joins \<^verbatim>\<open>existing_titles\<close>. The stores come from a set, so the
  list stands for whatever order the iteration takes.
\<close>

fun store_titles :: "string list \<Rightarrow> string list \<Rightarrow> string list option" where
  "store_titles [] existing_titles = Some []"
| "store_titles (store # stores) existing_titles =
     (case sanitize_sheet_title store existing_titles of
        None \<Rightarrow> None
      | Some (safe_title, existing') \<Rightarrow>
          (case store_titles stores existing' of
             None \<Rightarrow> None
           | Some titles \<Rightarrow> Some (safe_title # titles)))"

section \<open>The rules in the spec's words\<close>

text \<open>
  A record passes the first temporal predicate when its arrival date is a timestamp
  strictly between 2000-01-01 and the first day of the processing month.
\<close>

definition arrived_in_range :: "datetime \<Rightarrow> cell \<Rightarrow> bool" where
  "arrived_in_range today c =
     (case c of Stamp x \<Rightarrow> lower_cutoff < x \<and> x < upper_cutoff today | _ \<Rightarrow> False)"

text \<open>
  The Reference Window in the spec's words: the previous calendar month, from its first
  day through its last day. The rule of the spec sends a date inside it to itself and
  any other value to a default.
\<close>

definition reference_window :: "datetime \<Rightarrow> datetime \<Rightarrow> bool" where
  "reference_window today x = (first_day_prev_month today \<le> x \<and> x < first_day_this_month today)"

definition stored_start :: "datetime \<Rightarrow> cell \<Rightarrow> cell" where
  "stored_start today c =
     (case c of Stamp x \<Rightarrow> if reference_window today x then Stamp x
                           else Stamp (first_day_prev_month today)
      | _ \<Rightarrow> Stamp (first_day_prev_month today))"

definition stored_end :: "datetime \<Rightarrow> cell \<Rightarrow> cell" where
  "stored_end today c =
     (case c of Stamp x \<Rightarrow> if reference_window today x then Stamp x
                           else Stamp (last_day_prev_month today)
      | _ \<Rightarrow> Stamp (last_day_prev_month today))"

text \<open>
  A timestamp on the last day of the window after 00:00. The statements about the rule
  leave the records with such a source date open.
\<close>

definition late_on_last_day :: "datetime \<Rightarrow> cell \<Rightarrow> bool" where
  "late_on_last_day today c =
     (case c of Stamp x \<Rightarrow> last_day_prev_month today < x \<and> x < first_day_this_month today
      | _ \<Rightarrow> False)"

definition follows_rule :: "(cell \<Rightarrow> cell) \<Rightarrow> datetime \<Rightarrow> cell list \<Rightarrow> cell list \<Rightarrow> bool" where
  "follows_rule f today src tgt = list_all2 (\<lambda>s t. late_on_last_day today s \<or> t = f s) src tgt"

text \<open>
  The comparison the scripts make, \<^verbatim>\<open>first_day_prev_month <= x <= last_day_prev_month\<close>,
  ends at the last day at 00:00, and the closed forms of the two lambdas on cells that
  can be compared. A date that passes the comparison lies in the Reference Window.
\<close>

definition in_window :: "datetime \<Rightarrow> datetime \<Rightarrow> bool" where
  "in_window today x = (first_day_prev_month today \<le> x \<and> x \<le> last_day_prev_month today)"

definition resolved_start :: "datetime \<Rightarrow> cell \<Rightarrow> cell" where
  "resolved_start today c =
     (case c of Stamp x \<Rightarrow> if in_window today x then Stamp x else Stamp (first_day_prev_month today)
      | _ \<Rightarrow> Stamp (first_day_prev_month today))"

definition resolved_end :: "datetime \<Rightarrow> cell \<Rightarrow> cell" where
  "resolved_end today c =
     (case c of Stamp x \<Rightarrow> if in_window today x then Stamp x else Stamp (last_day_prev_month today)
      | _ \<Rightarrow> Stamp (last_day_prev_month today))"

definition stamp_in_window :: "datetime \<Rightarrow> cell \<Rightarrow> bool" where
  "stamp_in_window today c = (case c of Stamp x \<Rightarrow> in_window today x | _ \<Rightarrow> False)"

definition storage_columns_in_window :: "datetime \<Rightarrow> frame \<Rightarrow> bool" where
  "storage_columns_in_window today df =
     list_all (\<lambda>(n, vs). n = ''Storage Starts'' \<or> n = ''Storage Ends''
                          \<longrightarrow> list_all (stamp_in_window today) vs) df"


definition is_other :: "cell \<Rightarrow> bool" where
  "is_other c = (case c of Other s \<Rightarrow> True | _ \<Rightarrow> False)"

text \<open>
  A rule of the per-file step reads a non-date scalar when both of its columns are
  present and its source column holds one.
\<close>

definition has_text :: "frame \<Rightarrow> string \<Rightarrow> bool" where
  "has_text df c = (case map_of df c of Some vs \<Rightarrow> list_ex is_other vs | None \<Rightarrow> False)"

definition reads_text :: "frame \<Rightarrow> bool" where
  "reads_text df =
     ((''Arrived @ Warehouse'' \<in> set (columns df) \<and> ''Storage Starts'' \<in> set (columns df)
         \<and> has_text df ''Arrived @ Warehouse'')
      \<or> (''Scheduled Date'' \<in> set (columns df) \<and> ''Storage Ends'' \<in> set (columns df)
         \<and> has_text df ''Scheduled Date''))"

section \<open>Sample frames\<close>

text \<open>
  Frames on which the theorems below are instantiated, for a run on 2026-11-04 (the
  window is October 2026): a per-file frame before and after the storage-period step,
  and a consolidated frame before and after the step of the report.
\<close>

definition run_date :: datetime where
  "run_date = (2026, 11, 4, 0)"

definition file_frame :: frame where
  "file_frame =
     [(''Arrived @ Warehouse'', [Stamp (2026, 10, 5, 0), Stamp (2026, 9, 5, 0), Null]),
      (''Storage Starts'', [Null, Null, Null]),
      (''Storage Ends'', [Null, Stamp (2026, 11, 15, 0), Null]),
      (''Scheduled Date'', [Stamp (2026, 10, 31, 0), Stamp (2026, 11, 15, 0), Null])]"

definition file_frame_resolved :: frame where
  "file_frame_resolved =
     [(''Arrived @ Warehouse'', [Stamp (2026, 10, 5, 0), Stamp (2026, 9, 5, 0), Null]),
      (''Storage Starts'', [Stamp (2026, 10, 5, 0), Stamp (2026, 10, 1, 0), Stamp (2026, 10, 1, 0)]),
      (''Storage Ends'', [Stamp (2026, 10, 31, 0), Stamp (2026, 10, 31, 0), Stamp (2026, 10, 31, 0)]),
      (''Scheduled Date'', [Stamp (2026, 10, 31, 0), Stamp (2026, 11, 15, 0), Null])]"

definition report_frame :: frame where
  "report_frame =
     [(''Arrived @ Warehouse'', [Stamp (2026, 10, 5, 0), Other ''n/a'']),
      (''Scheduled Date'', [Other ''tbd'', Stamp (2026, 10, 20, 0)])]"

definition report_frame_resolved :: frame where
  "report_frame_resolved =
     [(''Arrived @ Warehouse'', [Stamp (2026, 10, 5, 0), Null]),
      (''Scheduled Date'', [Null, Stamp (2026, 10, 20, 0)]),
      (''Storage Starts'', [Stamp (2026, 10, 5, 0), Stamp (2026, 10, 1, 0)]),
      (''Storage Ends'', [Stamp (2026, 10, 31, 0), Stamp (2026, 10, 20, 0)])]"

definition unscheduled_frame :: frame where
  "unscheduled_frame =
     [(''Arrived @ Warehouse'', [Stamp (2026, 10, 5, 0)]),
      (''Storage Starts'', [Null]),
      (''Storage Ends'', [Stamp (2026, 11, 15, 0)])]"

text \<open>
  A file whose one record arrived on the last day of the window at 08:30 (the time of
  day in seconds), after the per-file step, after consolidation, and after the step of
  the report.
\<close>

definition late_frame :: frame where
  "late_frame =
     [(''PO FROM LOBLAW #'', [Other ''PO123'']),
      (''Arrived @ Warehouse'', [Stamp (2026, 10, 31, 30600)]),
      (''Storage Starts'', [Null]),
      (''Storage Ends'', [Null]),
      (''Scheduled Date'', [Stamp (2026, 11, 20, 0)])]"

definition late_frame_resolved :: frame where
  "late_frame_resolved =
     [(''PO FROM LOBLAW #'', [Other ''PO123'']),
      (''Arrived @ Warehouse'', [Stamp (2026, 10, 31, 30600)]),
      (''Storage Starts'', [Stamp (2026, 10, 1, 0)]),
      (''Storage Ends'', [Stamp (2026, 10, 31, 0)]),
      (''Scheduled Date'', [Stamp (2026, 11, 20, 0)])]"

definition late_frame_consolidated :: frame where
  "late_frame_consolidated =
     [(''PO FROM LOBLAW #'', [Other ''PO123'']),
      (''Arrived @ Warehouse'', [Stamp (2026, 10, 31, 0)]),
      (''Storage Starts'', [Stamp (2026, 10, 1, 0)]),
      (''Storage Ends'', [Stamp (2026, 10, 31, 0)]),
      (''Scheduled Date'', [Stamp (2026, 11, 20, 0)])]"

definition late_frame_reported :: frame where
  "late_frame_reported =
     [(''PO FROM LOBLAW #'', [Other ''PO123'']),
      (''Arrived @ Warehouse'', [Stamp (2026, 10, 31, 0)]),
      (''Storage Starts'', [Stamp (2026, 10, 31, 0)]),
      (''Storage Ends'', [Stamp (2026, 10, 31, 0)]),
      (''Scheduled Date'', [Stamp (2026, 11, 20, 0)])]"

definition no_parse :: "string \<Rightarrow> datetime option" where
  "no_parse t = None"

section \<open>Auxiliary notions for the proofs\<close>

text \<open>Reading a decimal numeral back, and the numeral at the end of a candidate title.\<close>

definition digit_val :: "char \<Rightarrow> nat" where
  "digit_val c = of_char c - 48"

definition undec :: "string \<Rightarrow> nat" where
  "undec s = foldl (\<lambda>a c. 10 * a + digit_val c) 0 s"

definition is_digit :: "char \<Rightarrow> bool" where
  "is_digit c = (48 \<le> (of_char c :: nat) \<and> (of_char c :: nat) \<le> 57)"

definition num_of :: "string \<Rightarrow> string" where
  "num_of c = rev (takeWhile is_digit (tl (rev c)))"


text \<open>The columns of a frame that carry a given label.\<close>

definition labelled :: "string \<Rightarrow> frame \<Rightarrow> frame" where
  "labelled c df = filter (\<lambda>(n, vs). n = c) df"

text \<open>The common shape of the two guarded rules of \<^verbatim>\<open>_transform_data\<close>.\<close>

definition assign :: "string \<Rightarrow> string \<Rightarrow> (cell \<Rightarrow> error + cell) \<Rightarrow> frame \<Rightarrow> error + frame" where
  "assign src tgt f df =
     (if src \<in> set (columns df) \<and> tgt \<in> set (columns df) then
        bind (getitem df src) (\<lambda>vs. bind (map_err f vs) (\<lambda>ws. Inr (setitem df tgt ws)))
      else Inr df)"

text \<open>The labels under which a frame holds at least one value.\<close>

definition live :: "frame \<Rightarrow> string set" where
  "live df = {n. \<exists>vs. (n, vs) \<in> set df \<and> (\<exists>v \<in> set vs. v \<noteq> Null)}"

section \<open>Properties of header normalisation\<close>

text \<open>
  C5 (evaluation at the failing input). Three equal headers are numbered
  \<open>Foo, Foo_1, Foo_2\<close>, but a header cell that literally equals a generated name is
  not registered against it: the primary row \<open>Foo, Foo, Foo_1\<close> yields the name
  \<open>Foo_1\<close> twice, so the canonical names are not pairwise distinct.
\<close>

theorem process_headers_collision:
  "process_headers [HStr ''Foo'', HStr ''Foo'', HStr ''Foo''] [HNone, HNone, HNone]
     = [''Foo'', ''Foo_1'', ''Foo_2'']
   \<and> process_headers [HStr ''Foo'', HStr ''Foo'', HStr ''Foo_1''] [HNone, HNone, HNone]
     = [''Foo'', ''Foo_1'', ''Foo_1'']
   \<and> \<not> distinct (process_headers [HStr ''Foo'', HStr ''Foo'', HStr ''Foo_1''] [HNone, HNone, HNone])"
  by code_simp

lemma header_name_prev:
  "snd (header_name i p h s) = (if h = HNone then p else Some (py_strip (str_of h)))"
  by (simp add: header_name_def Let_def)

lemma header_name_continuation:
  "fst (header_name i (Some ''Scheduled APPT'') HNone s) =
     (if any_time (subheader_str s) then ''Scheduled Time'' else ''Unnamed_'' @ dec i)"
  by (simp add: header_name_def Let_def)

lemma dedup_cases:
  "fst (dedup seen c) = c \<or> (\<exists>n\<ge>1. fst (dedup seen c) = c @ ''_'' @ dec n)"
  by (auto simp: dedup_def split: option.splits)

lemma headers_loop_nth:
  "j < length rows \<Longrightarrow>
   \<exists>seen'. headers_loop k seen p rows ! j =
      fst (dedup seen' (fst (header_name (k + j) (last_seen_primary p (map fst (take j rows)))
                               (fst (rows ! j)) (snd (rows ! j)))))"
proof (induction rows arbitrary: k seen p j)
  case Nil
  then show ?case by simp
next
  case (Cons r rows)
  obtain h s where r: "r = (h, s)" by (cases r)
  show ?case
  proof (cases j)
    case 0
    then show ?thesis
      by (auto simp: r Let_def split: prod.splits intro!: exI [of _ seen])
  next
    case (Suc j')
    with Cons.prems have "j' < length rows" by simp
    from Cons.IH [OF this, of "Suc k" "snd (dedup seen (fst (header_name k p h s)))"
                    "snd (header_name k p h s)"]
    show ?thesis
      using header_name_prev [of k p h s]
      by (auto simp: r Suc Let_def split: prod.splits)
  qed
qed

lemma take_map_fst_zip:
  "i \<le> length ys \<Longrightarrow> take i (map fst (zip xs ys)) = take i xs"
proof (induction xs arbitrary: i ys)
  case Nil
  then show ?case by simp
next
  case (Cons x xs)
  then show ?case by (cases ys; cases i) auto
qed

lemma dedup_suffixed: "fst (dedup seen c) = suffixed (occurrences seen c) c"
  by (simp add: dedup_def suffixed_def occurrences_def split: option.splits)

lemma dedup_occurrences:
  "occurrences (snd (dedup seen c)) c' = occurrences seen c' + (if c' = c then 1 else 0)"
  by (simp add: dedup_def occurrences_def split: option.splits)

lemma headers_loop_suffixed:
  "j < length rows \<Longrightarrow>
   headers_loop k seen p rows ! j =
     suffixed (occurrences seen (header_candidates k p rows ! j)
               + count_list (take j (header_candidates k p rows)) (header_candidates k p rows ! j))
              (header_candidates k p rows ! j)"
proof (induction rows arbitrary: k seen p j)
  case Nil
  then show ?case by simp
next
  case (Cons r rows)
  obtain h s where r: "r = (h, s)" by (cases r)
  let ?c = "fst (header_name k p h s)" and ?p = "snd (header_name k p h s)"
  show ?case
  proof (cases j)
    case 0
    then show ?thesis
      by (simp add: r Let_def split_def dedup_suffixed)
  next
    case (Suc j')
    with Cons.prems have j': "j' < length rows" by simp
    from Cons.IH [OF j', of "Suc k" "snd (dedup seen ?c)" ?p]
    show ?thesis
      by (simp add: r Suc Let_def split_def dedup_occurrences add.commute)
  qed
qed

lemma header_candidates_nth:
  "j < length rows \<Longrightarrow>
   header_candidates k p rows ! j =
     fst (header_name (k + j) (last_seen_primary p (map fst (take j rows)))
            (fst (rows ! j)) (snd (rows ! j)))"
proof (induction rows arbitrary: k p j)
  case Nil
  then show ?case by simp
next
  case (Cons r rows)
  obtain h s where r: "r = (h, s)" by (cases r)
  show ?case
  proof (cases j)
    case 0
    then show ?thesis by (simp add: r)
  next
    case (Suc j')
    with Cons.prems have "j' < length rows" by simp
    from Cons.IH [OF this, of "Suc k" "snd (header_name k p h s)"]
    show ?thesis by (simp add: r Suc header_name_prev)
  qed
qed

lemma header_name_labelled:
  "h \<noteq> HNone \<Longrightarrow> py_strip (str_of h) = ''Scheduled APPT'' \<Longrightarrow>
   fst (header_name i p h s) =
     (if contains ''date'' (subheader_str s) then ''Scheduled Date''
      else if any_time (subheader_str s) then ''Scheduled Time''
      else ''Scheduled APPT'')"
  by (simp add: header_name_def Let_def)

text \<open>
  C4 (as the code has it). Let \<open>c\<close> be the candidate name of position \<open>i\<close>. The name
  produced is \<open>c\<close> when no earlier position has the candidate \<open>c\<close>, and \<open>c_k\<close>
  when \<open>k\<close> earlier positions have it. At a position whose primary cell is null, with
  \<open>Scheduled APPT\<close> the last primary header seen, \<open>c\<close> is \<open>Scheduled Time\<close> when the
  subheader contains one of \<open>time\<close>, \<open>tme\<close>, \<open>tim\<close>, and \<open>Unnamed_i\<close> otherwise, also
  when the subheader contains \<open>date\<close>. At a position whose primary cell reads
  \<open>Scheduled APPT\<close>, \<open>c\<close> is \<open>Scheduled Date\<close> when the subheader contains \<open>date\<close>,
  else \<open>Scheduled Time\<close> when it contains one of the three spellings, else the label.
\<close>

theorem continuation_name:
  assumes "i < length header_row" "i < length subheader_row"
  shows "let cs = header_candidates 0 None (zip header_row subheader_row); c = cs ! i
         in process_headers header_row subheader_row ! i = suffixed (count_list (take i cs) c) c
          \<and> (header_row ! i = HNone
               \<and> last_seen_primary None (take i header_row) = Some ''Scheduled APPT''
             \<longrightarrow> c = (if any_time (subheader_str (subheader_row ! i)) then ''Scheduled Time''
                      else ''Unnamed_'' @ dec i))
          \<and> (header_row ! i \<noteq> HNone \<and> py_strip (str_of (header_row ! i)) = ''Scheduled APPT''
             \<longrightarrow> c = (if contains ''date'' (subheader_str (subheader_row ! i)) then ''Scheduled Date''
                      else if any_time (subheader_str (subheader_row ! i)) then ''Scheduled Time''
                      else ''Scheduled APPT''))"
proof -
  let ?rows = "zip header_row subheader_row"
  let ?cs = "header_candidates 0 None ?rows"
  have len: "i < length ?rows" using assms by simp
  have 1: "process_headers header_row subheader_row ! i
             = suffixed (count_list (take i ?cs) (?cs ! i)) (?cs ! i)"
    using headers_loop_suffixed [OF len, of 0 Map.empty None]
    by (simp add: process_headers_def occurrences_def)
  have t: "map fst (take i ?rows) = take i header_row"
    using assms take_map_fst_zip [of i subheader_row header_row] by (simp add: take_map)
  have c: "?cs ! i = fst (header_name i (last_seen_primary None (take i header_row))
                            (header_row ! i) (subheader_row ! i))"
    using header_candidates_nth [OF len, of 0 None] assms by (simp add: t)
  have 2: "?cs ! i = (if any_time (subheader_str (subheader_row ! i)) then ''Scheduled Time''
                      else ''Unnamed_'' @ dec i)"
    if "header_row ! i = HNone \<and> last_seen_primary None (take i header_row) = Some ''Scheduled APPT''"
    using that by (simp add: c header_name_continuation)
  have 3: "?cs ! i = (if contains ''date'' (subheader_str (subheader_row ! i)) then ''Scheduled Date''
                      else if any_time (subheader_str (subheader_row ! i)) then ''Scheduled Time''
                      else ''Scheduled APPT'')"
    if "header_row ! i \<noteq> HNone \<and> py_strip (str_of (header_row ! i)) = ''Scheduled APPT''"
    using that header_name_labelled [of "header_row ! i" i
        "last_seen_primary None (take i header_row)" "subheader_row ! i"]
    by (simp only: c) blast
  show ?thesis
    unfolding Let_def using 1 2 3 by blast
qed

theorem continuation_name_witness:
  "process_headers [HStr ''Scheduled APPT'', HNone, HNone] [HStr ''Date'', HStr ''Tme'', HStr ''Time''] ! 2
     = ''Scheduled Time_1''
   \<and> header_candidates 0 None
        (zip [HStr ''Scheduled APPT'', HNone, HNone] [HStr ''Date'', HStr ''Tme'', HStr ''Time''])
     = [''Scheduled Date'', ''Scheduled Time'', ''Scheduled Time'']
   \<and> [HStr ''Scheduled APPT'', HNone, HNone] ! 2 = HNone
   \<and> last_seen_primary None (take 2 [HStr ''Scheduled APPT'', HNone, HNone]) = Some ''Scheduled APPT''"
proof -
  let ?hs = "[HStr ''Scheduled APPT'', HNone, HNone]"
  let ?ss = "[HStr ''Date'', HStr ''Tme'', HStr ''Time'']"
  have cs: "header_candidates 0 None (zip ?hs ?ss)
              = [''Scheduled Date'', ''Scheduled Time'', ''Scheduled Time'']"
    by code_simp
  have k: "suffixed (count_list (take 2 [''Scheduled Date'', ''Scheduled Time'', ''Scheduled Time''])
                       ([''Scheduled Date'', ''Scheduled Time'', ''Scheduled Time''] ! 2))
                    ([''Scheduled Date'', ''Scheduled Time'', ''Scheduled Time''] ! 2)
             = ''Scheduled Time_1''"
    by code_simp
  have h: "?hs ! 2 = HNone"
    "last_seen_primary None (take 2 ?hs) = Some ''Scheduled APPT''"
    by code_simp+
  have "process_headers ?hs ?ss ! 2 =
          suffixed (count_list (take 2 (header_candidates 0 None (zip ?hs ?ss)))
                               (header_candidates 0 None (zip ?hs ?ss) ! 2))
                   (header_candidates 0 None (zip ?hs ?ss) ! 2)"
    using continuation_name [of 2 ?hs ?ss] by (simp add: Let_def)
  then have "process_headers ?hs ?ss ! 2 = ''Scheduled Time_1''"
    by (simp only: cs k)
  then show ?thesis using cs h by blast
qed

text \<open>
  C4 as stated fails: with the primary row \<open>Scheduled APPT, None\<close> over the subheaders
  \<open>Time, Date\<close>, position 1 is a continuation of \<open>Scheduled APPT\<close> whose subheader
  contains \<open>date\<close>, and its name is \<open>Unnamed_1\<close>, not \<open>Scheduled Date\<close>.
\<close>

theorem continuation_date_counterexample:
  "[HStr ''Scheduled APPT'', HNone] ! 1 = HNone
   \<and> last_seen_primary None (take 1 [HStr ''Scheduled APPT'', HNone]) = Some ''Scheduled APPT''
   \<and> contains ''date'' (subheader_str ([HStr ''Time'', HStr ''Date''] ! 1))
   \<and> process_headers [HStr ''Scheduled APPT'', HNone] [HStr ''Time'', HStr ''Date''] ! 1 = ''Unnamed_1''
   \<and> process_headers [HStr ''Scheduled APPT'', HNone] [HStr ''Time'', HStr ''Date''] ! 1 \<noteq> ''Scheduled Date''"
  by code_simp

section \<open>Properties of frames\<close>


lemma getitem_labelled:
  "getitem df c = (case labelled c df of [] \<Rightarrow> Inl KeyError | [(n, vs)] \<Rightarrow> Inr vs | _ \<Rightarrow> Inl DuplicateLabel)"
  by (simp add: getitem_def labelled_def)

lemma getitem_cong: "labelled c df = labelled c df' \<Longrightarrow> getitem df c = getitem df' c"
  by (simp add: getitem_labelled)

lemma labelled_Nil_iff: "labelled c df = [] \<longleftrightarrow> c \<notin> set (columns df)"
  by (force simp: labelled_def columns_def filter_empty_conv)

lemma getitem_in_columns: "getitem df c = Inr vs \<Longrightarrow> c \<in> set (columns df)"
  using labelled_Nil_iff [of c df] by (auto simp: getitem_labelled split: list.splits)

lemma getitem_Inr_iff: "getitem df c = Inr vs \<longleftrightarrow> labelled c df = [(c, vs)]"
proof
  assume a: "getitem df c = Inr vs"
  then obtain n where l: "labelled c df = [(n, vs)]"
    by (auto simp: getitem_labelled split: list.splits)
  then have "(n, vs) \<in> set (labelled c df)" by simp
  then have "n = c" by (auto simp: labelled_def)
  with l show "labelled c df = [(c, vs)]" by simp
next
  assume "labelled c df = [(c, vs)]"
  then show "getitem df c = Inr vs" by (simp add: getitem_labelled)
qed

lemma columns_setitem:
  "c \<in> set (columns df) \<Longrightarrow> columns (setitem df c vs) = columns df"
  by (auto simp: setitem_def columns_def split: prod.splits)

lemma set_columns_setitem: "set (columns (setitem df c vs)) = insert c (set (columns df))"
proof (cases "c \<in> set (columns df)")
  case True
  then show ?thesis using columns_setitem [OF True] by auto
next
  case False
  then show ?thesis by (auto simp: setitem_def columns_def)
qed

lemma labelled_setitem_other:
  "c \<noteq> c' \<Longrightarrow> labelled c' (setitem df c vs) = labelled c' df"
proof -
  assume ne: "c \<noteq> c'"
  have "filter (\<lambda>(n, vs). n = c') (map (\<lambda>(n, old). if n = c then (n, vs) else (n, old)) df)
        = filter (\<lambda>(n, vs). n = c') df"
    using ne by (induction df) (auto split: if_splits)
  then show ?thesis using ne by (simp add: labelled_def setitem_def)
qed

lemma labelled_setitem_same:
  "set (labelled c (setitem df c vs)) \<subseteq> {(c, vs)} \<and> labelled c (setitem df c vs) \<noteq> []"
proof (cases "c \<in> set (columns df)")
  case True
  then have "labelled c (setitem df c vs) \<noteq> []"
    using labelled_Nil_iff [of c "setitem df c vs"] set_columns_setitem [of df c vs] by simp
  moreover have "set (labelled c (setitem df c vs)) \<subseteq> {(c, vs)}"
    using True by (auto simp: labelled_def setitem_def split: if_splits)
  ultimately show ?thesis by simp
next
  case False
  then have "labelled c df = []" by (simp add: labelled_Nil_iff)
  then show ?thesis using False by (simp add: setitem_def labelled_def)
qed

lemma getitem_setitem_other: "c \<noteq> c' \<Longrightarrow> getitem (setitem df c vs) c' = getitem df c'"
  by (rule getitem_cong) (rule labelled_setitem_other)

lemma length_labelled_setitem:
  "c \<in> set (columns df) \<Longrightarrow> length (labelled c (setitem df c vs)) = length (labelled c df)"
proof -
  assume "c \<in> set (columns df)"
  moreover have "length (filter (\<lambda>(n, vs). n = c) (map (\<lambda>(n, old). if n = c then (n, vs) else (n, old)) df))
      = length (filter (\<lambda>(n, vs). n = c) df)"
    by (induction df) (auto split: if_splits)
  ultimately show ?thesis by (simp add: labelled_def setitem_def)
qed

lemma getitem_setitem_same:
  assumes "getitem df c = Inr vs"
  shows "getitem (setitem df c ws) c = Inr ws"
proof -
  have c: "c \<in> set (columns df)" using assms by (rule getitem_in_columns)
  have "length (labelled c df) = 1" using assms by (simp add: getitem_Inr_iff)
  then have "length (labelled c (setitem df c ws)) = 1"
    using length_labelled_setitem [OF c] by simp
  then obtain p where p: "labelled c (setitem df c ws) = [p]"
    by (cases "labelled c (setitem df c ws)") auto
  with labelled_setitem_same [of c df ws] have "p = (c, ws)" by auto
  with p show ?thesis by (simp add: getitem_Inr_iff)
qed

lemma setitem_id:
  assumes "c \<in> set (columns df)" and "set (labelled c df) \<subseteq> {(c, vs)}"
  shows "setitem df c vs = df"
proof -
  have "\<forall>p \<in> set df. fst p = c \<longrightarrow> snd p = vs"
    using assms(2) by (auto simp: labelled_def)
  then have "map (\<lambda>(n, old). if n = c then (n, vs) else (n, old)) df = df"
    by (induction df) auto
  then show ?thesis using assms(1) by (simp add: setitem_def)
qed

lemma setitem_setitem_id:
  "setitem (setitem df c vs) c vs = setitem df c vs"
  using labelled_setitem_same [of c df vs] set_columns_setitem [of df c vs]
  by (intro setitem_id) auto

lemma storage_starts_rule_assign:
  "storage_starts_rule today = assign ''Arrived @ Warehouse'' ''Storage Starts''
     (clamp (first_day_prev_month today) (last_day_prev_month today) (first_day_prev_month today))"
  by (rule ext) (simp add: storage_starts_rule_def assign_def)

lemma storage_ends_rule_assign:
  "storage_ends_rule today = assign ''Scheduled Date'' ''Storage Ends''
     (clamp (first_day_prev_month today) (last_day_prev_month today) (last_day_prev_month today))"
  by (rule ext) (simp add: storage_ends_rule_def assign_def)

lemma assign_Inr:
  assumes "assign src tgt f df = Inr df1"
  shows "(\<not> (src \<in> set (columns df) \<and> tgt \<in> set (columns df)) \<and> df1 = df)
       \<or> (src \<in> set (columns df) \<and> tgt \<in> set (columns df)
           \<and> (\<exists>vs ws. getitem df src = Inr vs \<and> map_err f vs = Inr ws \<and> df1 = setitem df tgt ws))"
  using assms by (auto simp: assign_def bind_def split: if_splits sum.splits)

lemma assign_columns: "assign src tgt f df = Inr df1 \<Longrightarrow> columns df1 = columns df"
  by (drule assign_Inr) (auto simp: columns_setitem)

lemma assign_labelled_other:
  "assign src tgt f df = Inr df1 \<Longrightarrow> c \<noteq> tgt \<Longrightarrow> labelled c df1 = labelled c df"
  by (drule assign_Inr) (auto simp: labelled_setitem_other)

lemma assign_stable:
  assumes a: "assign src tgt f df = Inr df1"
    and l: "labelled tgt df2 = labelled tgt df1" "labelled src df2 = labelled src df1"
    and c: "columns df2 = columns df1"
    and ne: "src \<noteq> tgt"
  shows "assign src tgt f df2 = Inr df2"
proof -
  from assign_Inr [OF a] show ?thesis
  proof (elim disjE conjE exE)
    assume "\<not> (src \<in> set (columns df) \<and> tgt \<in> set (columns df))" "df1 = df"
    then show ?thesis using c by (auto simp: assign_def)
  next
    fix vs ws
    assume h: "src \<in> set (columns df)" "tgt \<in> set (columns df)"
      "getitem df src = Inr vs" "map_err f vs = Inr ws" "df1 = setitem df tgt ws"
    have cols: "src \<in> set (columns df2)" "tgt \<in> set (columns df2)"
      using c h by (simp_all add: columns_setitem)
    have "getitem df2 src = getitem df1 src" using l(2) by (rule getitem_cong)
    also have "\<dots> = Inr vs" using h ne by (simp add: getitem_setitem_other)
    finally have g: "getitem df2 src = Inr vs" .
    have "set (labelled tgt df2) \<subseteq> {(tgt, ws)}"
      using l(1) h(5) labelled_setitem_same [of tgt df ws] by simp
    then have "setitem df2 tgt ws = df2" using cols by (intro setitem_id)
    then show ?thesis using cols g h(4) by (simp add: assign_def bind_def)
  qed
qed

lemma assign_idem: "assign src tgt f df = Inr df1 \<Longrightarrow> src \<noteq> tgt \<Longrightarrow> assign src tgt f df1 = Inr df1"
  by (erule assign_stable) simp_all

lemma transform_idem:
  assumes "transform_storage_period today df = Inr df'"
  shows "transform_storage_period today df' = Inr df'"
proof -
  let ?r1 = "assign ''Arrived @ Warehouse'' ''Storage Starts''
     (clamp (first_day_prev_month today) (last_day_prev_month today) (first_day_prev_month today))"
  let ?r2 = "assign ''Scheduled Date'' ''Storage Ends''
     (clamp (first_day_prev_month today) (last_day_prev_month today) (last_day_prev_month today))"
  from assms obtain df1 where r1: "?r1 df = Inr df1" and r2: "?r2 df1 = Inr df'"
    by (auto simp: transform_storage_period_def bind_def storage_starts_rule_assign
        storage_ends_rule_assign split: sum.splits)
  have "?r1 df' = Inr df'"
    using r1
  proof (rule assign_stable)
    show "labelled ''Storage Starts'' df' = labelled ''Storage Starts'' df1"
      using r2 by (rule assign_labelled_other) simp
    show "labelled ''Arrived @ Warehouse'' df' = labelled ''Arrived @ Warehouse'' df1"
      using r2 by (rule assign_labelled_other) simp
    show "columns df' = columns df1" using r2 by (rule assign_columns)
  qed simp
  moreover have "?r2 df' = Inr df'" using r2 by (rule assign_idem) simp
  ultimately show ?thesis
    by (simp add: transform_storage_period_def bind_def storage_starts_rule_assign
        storage_ends_rule_assign)
qed

lemma map_err_total:
  assumes "\<And>x. x \<in> set xs \<Longrightarrow> f x = Inr (g x)"
  shows "map_err f xs = Inr (map g xs)"
  using assms by (induction xs) (simp_all add: bind_def)

lemma map_err_Inr:
  "map_err f xs = Inr ys \<Longrightarrow> length ys = length xs \<and> (\<forall>i<length xs. f (xs ! i) = Inr (ys ! i))"
proof (induction xs arbitrary: ys)
  case Nil
  then show ?case by simp
next
  case (Cons x xs)
  then show ?case
    by (auto simp: bind_def nth_Cons split: sum.splits nat.splits)
qed

lemma arrived_mask_eq: "\<not> is_other c \<Longrightarrow> arrived_mask today c = Inr (arrived_in_range today c)"
  by (cases c) (simp_all add: arrived_in_range_def is_other_def)

lemma filter_by_own_mask: "map fst (filter snd (zip vs (map P vs))) = filter P vs"
  by (induction vs) auto

section \<open>Properties of the storage-period rules: auxiliary facts\<close>

lemma window_nonempty: "first_day_prev_month today \<le> last_day_prev_month today"
  by (cases today)
     (auto simp: first_day_prev_month_def last_day_prev_month_def first_day_this_month_def
        minus_one_day_def days_in_month_def)

lemma clamp_start_eq:
  "\<not> is_other c \<Longrightarrow>
   clamp (first_day_prev_month today) (last_day_prev_month today) (first_day_prev_month today) c
     = Inr (resolved_start today c)"
  by (cases c) (simp_all add: resolved_start_def in_window_def is_other_def)

lemma clamp_end_eq:
  "\<not> is_other c \<Longrightarrow>
   clamp (first_day_prev_month today) (last_day_prev_month today) (last_day_prev_month today) c
     = Inr (resolved_end today c)"
  by (cases c) (simp_all add: resolved_end_def in_window_def is_other_def)

lemma to_datetime_not_other: "\<not> is_other (to_datetime parse c)"
  by (cases c) (simp_all add: is_other_def split: option.splits)

lemma to_datetime_idem: "to_datetime parse (to_datetime parse c) = to_datetime parse c"
  by (cases c) (simp_all split: option.splits)

lemma in_window_first: "in_window today (first_day_prev_month today)"
  using window_nonempty [of today] by (simp add: in_window_def)

lemma in_window_last: "in_window today (last_day_prev_month today)"
  using window_nonempty [of today] by (simp add: in_window_def)

lemma resolved_start_in_window: "stamp_in_window today (resolved_start today c)"
  by (cases c) (simp_all add: resolved_start_def stamp_in_window_def in_window_first)

lemma resolved_end_in_window: "stamp_in_window today (resolved_end today c)"
  by (cases c) (simp_all add: resolved_end_def stamp_in_window_def in_window_last)

lemma clamp_Inr_start:
  "clamp (first_day_prev_month today) (last_day_prev_month today) (first_day_prev_month today) c = Inr r
   \<Longrightarrow> r = resolved_start today c"
  by (cases c) (auto simp: resolved_start_def in_window_def)

lemma clamp_Inr_end:
  "clamp (first_day_prev_month today) (last_day_prev_month today) (last_day_prev_month today) c = Inr r
   \<Longrightarrow> r = resolved_end today c"
  by (cases c) (auto simp: resolved_end_def in_window_def)

lemma map_err_Inr_map:
  assumes "map_err f xs = Inr ys" and "\<And>x y. f x = Inr y \<Longrightarrow> y = g x"
  shows "ys = map g xs"
  using assms(1)
proof (induction xs arbitrary: ys)
  case Nil
  then show ?case by simp
next
  case (Cons x xs)
  from Cons.prems obtain y ys' where y: "f x = Inr y" and ys': "map_err f xs = Inr ys'"
    and eq: "ys = y # ys'"
    by (auto simp: bind_def split: sum.splits)
  from y have "y = g x" by (rule assms(2))
  moreover from ys' have "ys' = map g xs" by (rule Cons.IH)
  ultimately show ?case using eq by simp
qed

lemma in_setitem:
  assumes "p \<in> set (setitem df c vs)"
  shows "(fst p = c \<and> snd p = vs) \<or> (fst p \<noteq> c \<and> p \<in> set df)"
proof (cases "c \<in> set (columns df)")
  case True
  with assms obtain q where q: "q \<in> set df"
    and p: "p = (case q of (n, old) \<Rightarrow> if n = c then (n, vs) else (n, old))"
    by (auto simp: setitem_def)
  obtain n old where "q = (n, old)" by (cases q)
  with q p show ?thesis by (auto split: if_splits)
next
  case False
  with assms have "p \<in> set df \<or> p = (c, vs)" by (auto simp: setitem_def)
  moreover have "fst p \<noteq> c" if "p \<in> set df"
    using that False by (auto simp: columns_def)
  ultimately show ?thesis by auto
qed

lemma transform_result:
  assumes a: "getitem df ''Arrived @ Warehouse'' = Inr a" and ss: "''Storage Starts'' \<in> set (columns df)"
    and s: "getitem df ''Scheduled Date'' = Inr s" and se: "''Storage Ends'' \<in> set (columns df)"
    and na: "\<forall>c \<in> set a. \<not> is_other c" and ns: "\<forall>c \<in> set s. \<not> is_other c"
  shows "transform_storage_period today df =
           Inr (setitem (setitem df ''Storage Starts'' (map (resolved_start today) a))
                        ''Storage Ends'' (map (resolved_end today) s))"
proof -
  let ?df1 = "setitem df ''Storage Starts'' (map (resolved_start today) a)"
  have m1: "map_err (clamp (first_day_prev_month today) (last_day_prev_month today)
                 (first_day_prev_month today)) a = Inr (map (resolved_start today) a)"
    using na by (intro map_err_total clamp_start_eq) simp
  have m2: "map_err (clamp (first_day_prev_month today) (last_day_prev_month today)
                 (last_day_prev_month today)) s = Inr (map (resolved_end today) s)"
    using ns by (intro map_err_total clamp_end_eq) simp
  have r1: "storage_starts_rule today df = Inr ?df1"
    using a ss m1 getitem_in_columns [OF a] by (simp add: storage_starts_rule_def bind_def)
  have c1: "columns ?df1 = columns df" using ss by (rule columns_setitem)
  have g1: "getitem ?df1 ''Scheduled Date'' = Inr s"
    using s by (simp add: getitem_setitem_other)
  have r2: "storage_ends_rule today ?df1 = Inr (setitem ?df1 ''Storage Ends'' (map (resolved_end today) s))"
    using g1 se m2 c1 getitem_in_columns [OF s] by (simp add: storage_ends_rule_def bind_def)
  show ?thesis using r1 r2 by (simp add: transform_storage_period_def bind_def)
qed

lemma report_result:
  assumes a: "getitem df ''Arrived @ Warehouse'' = Inr a"
    and s: "getitem df ''Scheduled Date'' = Inr s"
  shows "report_storage_period parse today df =
           Inr (setitem (setitem (setitem (setitem df
                  ''Arrived @ Warehouse'' (map (to_datetime parse) a))
                  ''Scheduled Date'' (map (to_datetime parse) s))
                  ''Storage Starts'' (map (resolved_start today) (map (to_datetime parse) a)))
                  ''Storage Ends'' (map (resolved_end today) (map (to_datetime parse) s)))"
proof -
  let ?a = "map (to_datetime parse) a" and ?s = "map (to_datetime parse) s"
  let ?df1 = "setitem df ''Arrived @ Warehouse'' ?a"
  let ?df2 = "setitem ?df1 ''Scheduled Date'' ?s"
  let ?df3 = "setitem ?df2 ''Storage Starts'' (map (resolved_start today) ?a)"
  have g1: "getitem ?df1 ''Scheduled Date'' = Inr s"
    using s by (simp add: getitem_setitem_other)
  have g1a: "getitem ?df1 ''Arrived @ Warehouse'' = Inr ?a"
    using a by (rule getitem_setitem_same)
  have g2: "getitem ?df2 ''Arrived @ Warehouse'' = Inr ?a"
    using g1a by (simp add: getitem_setitem_other)
  have g2s: "getitem ?df2 ''Scheduled Date'' = Inr ?s"
    using g1 by (rule getitem_setitem_same)
  have g3: "getitem ?df3 ''Scheduled Date'' = Inr ?s"
    using g2s by (simp add: getitem_setitem_other)
  have m1: "map_err (clamp (first_day_prev_month today) (last_day_prev_month today)
                 (first_day_prev_month today)) ?a = Inr (map (resolved_start today) ?a)"
    by (intro map_err_total clamp_start_eq) (auto simp: to_datetime_not_other)
  have m2: "map_err (clamp (first_day_prev_month today) (last_day_prev_month today)
                 (last_day_prev_month today)) ?s = Inr (map (resolved_end today) ?s)"
    by (intro map_err_total clamp_end_eq) (auto simp: to_datetime_not_other)
  show ?thesis
    unfolding report_storage_period_def Let_def
    by (simp only: a g1 g2 g3 m1 m2 bind_def sum.case)
qed

lemma report_Inr:
  assumes "report_storage_period parse today df = Inr df'"
  shows "\<exists>a s. getitem df ''Arrived @ Warehouse'' = Inr a \<and> getitem df ''Scheduled Date'' = Inr s"
proof -
  from assms obtain a where a: "getitem df ''Arrived @ Warehouse'' = Inr a"
    by (cases "getitem df ''Arrived @ Warehouse''") (auto simp: report_storage_period_def bind_def)
  have "getitem (setitem df ''Arrived @ Warehouse'' (map (to_datetime parse) a)) ''Scheduled Date''
        = getitem df ''Scheduled Date''"
    by (simp add: getitem_setitem_other)
  with assms a obtain s where "getitem df ''Scheduled Date'' = Inr s"
    by (cases "getitem df ''Scheduled Date''") (auto simp: report_storage_period_def bind_def Let_def)
  with a show ?thesis by blast
qed

section \<open>Properties of the temporal filter\<close>

text \<open>
  C3 (as the code has it). When the frame has one column \<open>Arrived @ Warehouse\<close>, holding
  timestamps and missing values, the filter returns the frame restricted to the rows
  whose arrival date is a timestamp strictly between 2000-01-01 and the first day of the
  processing month. A row whose arrival date is missing is dropped, and so is one that
  arrived on 2000-01-01 exactly.
\<close>

theorem filter_arrived_keeps:
  assumes "getitem df ''Arrived @ Warehouse'' = Inr vs"
    and "\<forall>c \<in> set vs. \<not> is_other c"
  shows "filter_arrived today df = Inr (select_rows (map (arrived_in_range today) vs) df)
         \<and> getitem (select_rows (map (arrived_in_range today) vs) df) ''Arrived @ Warehouse''
             = Inr (filter (arrived_in_range today) vs)
         \<and> \<not> arrived_in_range today Null
         \<and> \<not> arrived_in_range today (Stamp (2000, 1, 1, 0))"
proof -
  have "map_err (arrived_mask today) vs = Inr (map (arrived_in_range today) vs)"
    using assms(2) by (intro map_err_total arrived_mask_eq) simp
  then have 1: "filter_arrived today df = Inr (select_rows (map (arrived_in_range today) vs) df)"
    using assms(1) getitem_in_columns [OF assms(1)]
    by (simp add: filter_arrived_def bind_def)
  have "labelled ''Arrived @ Warehouse'' (select_rows keep df)
        = select_rows keep (labelled ''Arrived @ Warehouse'' df)" for keep
    by (induction df) (auto simp: labelled_def select_rows_def)
  then have 2: "getitem (select_rows (map (arrived_in_range today) vs) df) ''Arrived @ Warehouse''
             = Inr (filter (arrived_in_range today) vs)"
    using assms(1) by (simp add: getitem_Inr_iff select_rows_def filter_by_own_mask)
  show ?thesis
    using 1 2 by (simp add: arrived_in_range_def lower_cutoff_def)
qed

theorem filter_arrived_keeps_witness:
  "filter_arrived (2026, 11, 4, 0)
     [(''Arrived @ Warehouse'', [Stamp (2026, 10, 5, 0), Stamp (2000, 1, 1, 0)]),
      (''Case #'', [Other ''A'', Other ''B''])]
   = Inr [(''Arrived @ Warehouse'', [Stamp (2026, 10, 5, 0)]), (''Case #'', [Other ''A''])]"
  using filter_arrived_keeps [of
      "[(''Arrived @ Warehouse'', [Stamp (2026, 10, 5, 0), Stamp (2000, 1, 1, 0)]),
        (''Case #'', [Other ''A'', Other ''B''])]"
      "[Stamp (2026, 10, 5, 0), Stamp (2000, 1, 1, 0)]" "(2026, 11, 4, 0)"]
  by (simp add: getitem_def is_other_def select_rows_def arrived_in_range_def
      lower_cutoff_def upper_cutoff_def)

text \<open>
  C3 as stated fails: the record whose arrival date is missing (case \<open>A\<close>) is not kept.
\<close>

theorem filter_arrived_null_counterexample:
  "filter_arrived (2026, 11, 4, 0)
     [(''Arrived @ Warehouse'', [Null, Stamp (2026, 10, 5, 0)]),
      (''Case #'', [Other ''A'', Other ''B''])]
   = Inr [(''Arrived @ Warehouse'', [Stamp (2026, 10, 5, 0)]), (''Case #'', [Other ''B''])]"
  by code_simp

section \<open>Properties of the storage-period rules\<close>

lemma setitem_getitem_id: "getitem df c = Inr vs \<Longrightarrow> setitem df c vs = df"
  using getitem_in_columns [of df c vs] by (intro setitem_id) (auto simp: getitem_Inr_iff)

lemma setitem2_contents:
  assumes "p \<in> set (setitem (setitem df c1 v1) c2 v2)" and "c1 \<noteq> c2"
  shows "(fst p = c1 \<longrightarrow> snd p = v1) \<and> (fst p = c2 \<longrightarrow> snd p = v2)"
  using in_setitem [OF assms(1)] in_setitem [of p df c1 v1] assms(2) by auto

lemma report_idem:
  assumes "report_storage_period parse today df = Inr df'"
  shows "report_storage_period parse today df' = Inr df'"
proof -
  from report_Inr [OF assms] obtain a s
    where a: "getitem df ''Arrived @ Warehouse'' = Inr a" and s: "getitem df ''Scheduled Date'' = Inr s"
    by blast
  let ?a = "map (to_datetime parse) a" and ?s = "map (to_datetime parse) s"
  let ?df1 = "setitem df ''Arrived @ Warehouse'' ?a"
  let ?df2 = "setitem ?df1 ''Scheduled Date'' ?s"
  let ?df3 = "setitem ?df2 ''Storage Starts'' (map (resolved_start today) ?a)"
  let ?df4 = "setitem ?df3 ''Storage Ends'' (map (resolved_end today) ?s)"
  have df': "df' = ?df4" using assms report_result [OF a s, of parse today] by simp
  have ga: "getitem ?df4 ''Arrived @ Warehouse'' = Inr ?a"
    using getitem_setitem_same [OF a, of ?a] by (simp add: getitem_setitem_other)
  have "getitem ?df1 ''Scheduled Date'' = Inr s" using s by (simp add: getitem_setitem_other)
  then have "getitem ?df2 ''Scheduled Date'' = Inr ?s" by (rule getitem_setitem_same)
  then have gs: "getitem ?df4 ''Scheduled Date'' = Inr ?s" by (simp add: getitem_setitem_other)
  have ia: "map (to_datetime parse) ?a = ?a" and is0: "map (to_datetime parse) ?s = ?s"
    by (simp_all add: to_datetime_idem)
  have e1: "setitem ?df4 ''Arrived @ Warehouse'' ?a = ?df4" using ga by (rule setitem_getitem_id)
  have e2: "setitem ?df4 ''Scheduled Date'' ?s = ?df4" using gs by (rule setitem_getitem_id)
  have "labelled ''Storage Starts'' ?df4 = labelled ''Storage Starts'' ?df3"
    by (simp add: labelled_setitem_other)
  then have e3: "setitem ?df4 ''Storage Starts'' (map (resolved_start today) ?a) = ?df4"
    using labelled_setitem_same [of "''Storage Starts''" ?df2 "map (resolved_start today) ?a"]
    by (intro setitem_id) (simp_all add: set_columns_setitem)
  have e4: "setitem ?df4 ''Storage Ends'' (map (resolved_end today) ?s) = ?df4"
    by (rule setitem_setitem_id)
  have "report_storage_period parse today ?df4 = Inr ?df4"
    using report_result [OF ga gs, of parse today] by (simp only: ia is0 e1 e2 e3 e4)
  then show ?thesis by (simp only: df')
qed

lemma to_datetime_id: "\<not> is_other c \<Longrightarrow> to_datetime parse c = c"
  by (cases c) (simp_all add: is_other_def)

lemma report_after_transform:
  assumes a: "getitem df ''Arrived @ Warehouse'' = Inr a" and ss: "''Storage Starts'' \<in> set (columns df)"
    and s: "getitem df ''Scheduled Date'' = Inr s" and se: "''Storage Ends'' \<in> set (columns df)"
    and na: "\<forall>c \<in> set a. \<not> is_other c" and ns: "\<forall>c \<in> set s. \<not> is_other c"
    and t: "transform_storage_period today df = Inr df'"
  shows "report_storage_period parse today df' = Inr df'"
proof -
  let ?st = "map (resolved_start today) a" and ?en = "map (resolved_end today) s"
  let ?d1 = "setitem df ''Storage Starts'' ?st"
  let ?d2 = "setitem ?d1 ''Storage Ends'' ?en"
  have df': "df' = ?d2" using t transform_result [OF a ss s se na ns, of today] by simp
  have ga: "getitem ?d2 ''Arrived @ Warehouse'' = Inr a"
    using a by (simp add: getitem_setitem_other)
  have gs: "getitem ?d2 ''Scheduled Date'' = Inr s"
    using s by (simp add: getitem_setitem_other)
  have ia: "map (to_datetime parse) a = a" using na by (simp add: map_idI to_datetime_id)
  have is0: "map (to_datetime parse) s = s" using ns by (simp add: map_idI to_datetime_id)
  have e1: "setitem ?d2 ''Arrived @ Warehouse'' a = ?d2" using ga by (rule setitem_getitem_id)
  have e2: "setitem ?d2 ''Scheduled Date'' s = ?d2" using gs by (rule setitem_getitem_id)
  have "labelled ''Storage Starts'' ?d2 = labelled ''Storage Starts'' ?d1"
    by (simp add: labelled_setitem_other)
  then have e3: "setitem ?d2 ''Storage Starts'' ?st = ?d2"
    using labelled_setitem_same [of "''Storage Starts''" df ?st]
    by (intro setitem_id) (simp_all add: set_columns_setitem)
  have e4: "setitem ?d2 ''Storage Ends'' ?en = ?d2" by (rule setitem_setitem_id)
  have "report_storage_period parse today ?d2 = Inr ?d2"
    using report_result [OF ga gs, of parse today] by (simp only: ia is0 e1 e2 e3 e4)
  then show ?thesis by (simp only: df')
qed

lemma in_windowI:
  assumes "\<And>p. p \<in> set df \<Longrightarrow> fst p = ''Storage Starts'' \<Longrightarrow> \<exists>vs. snd p = map (resolved_start today) vs"
    and "\<And>p. p \<in> set df \<Longrightarrow> fst p = ''Storage Ends'' \<Longrightarrow> \<exists>vs. snd p = map (resolved_end today) vs"
  shows "storage_columns_in_window today df"
  unfolding storage_columns_in_window_def list_all_iff
proof (intro ballI)
  fix p assume p: "p \<in> set df"
  obtain n ws where pw: "p = (n, ws)" by (cases p)
  have "\<forall>c \<in> set ws. stamp_in_window today c" if "n = ''Storage Starts'' \<or> n = ''Storage Ends''"
    using that
  proof
    assume "n = ''Storage Starts''"
    with assms(1) [OF p] pw obtain vs where "ws = map (resolved_start today) vs" by auto
    then show ?thesis by (simp add: resolved_start_in_window)
  next
    assume "n = ''Storage Ends''"
    with assms(2) [OF p] pw obtain vs where "ws = map (resolved_end today) vs" by auto
    then show ?thesis by (simp add: resolved_end_in_window)
  qed
  then show "case p of (n, vs) \<Rightarrow> n = ''Storage Starts'' \<or> n = ''Storage Ends''
                          \<longrightarrow> (\<forall>c \<in> set vs. stamp_in_window today c)"
    by (simp add: pw)
qed

lemma report_in_window:
  assumes "report_storage_period parse today df = Inr df'"
  shows "storage_columns_in_window today df'"
proof -
  from report_Inr [OF assms] obtain a s
    where a: "getitem df ''Arrived @ Warehouse'' = Inr a" and s: "getitem df ''Scheduled Date'' = Inr s"
    by blast
  let ?d2 = "setitem (setitem df ''Arrived @ Warehouse'' (map (to_datetime parse) a))
                  ''Scheduled Date'' (map (to_datetime parse) s)"
  let ?st = "map (resolved_start today) (map (to_datetime parse) a)"
  let ?en = "map (resolved_end today) (map (to_datetime parse) s)"
  have df': "df' = setitem (setitem ?d2 ''Storage Starts'' ?st) ''Storage Ends'' ?en"
    using assms report_result [OF a s, of parse today] by simp
  show ?thesis
  proof (rule in_windowI)
    fix p assume "p \<in> set df'" "fst p = ''Storage Starts''"
    then have "snd p = ?st" using setitem2_contents [of p ?d2 "''Storage Starts''" ?st "''Storage Ends''" ?en]
      by (simp add: df')
    then show "\<exists>vs. snd p = map (resolved_start today) vs" by blast
  next
    fix p assume "p \<in> set df'" "fst p = ''Storage Ends''"
    then have "snd p = ?en" using setitem2_contents [of p ?d2 "''Storage Starts''" ?st "''Storage Ends''" ?en]
      by (simp add: df')
    then show "\<exists>vs. snd p = map (resolved_end today) vs" by blast
  qed
qed

lemma assign_target:
  assumes r: "assign src tgt f df = Inr df1" and src: "src \<in> set (columns df)"
    and p: "p \<in> set df1" "fst p = tgt" and g: "\<And>x y. f x = Inr y \<Longrightarrow> y = g x"
  shows "\<exists>vs. snd p = map g vs"
proof -
  from assign_Inr [OF r] show ?thesis
  proof (elim disjE conjE exE)
    assume "\<not> (src \<in> set (columns df) \<and> tgt \<in> set (columns df))" "df1 = df"
    with src p have False by (auto simp: columns_def)
    then show ?thesis ..
  next
    fix vs ws
    assume "map_err f vs = Inr ws" "df1 = setitem df tgt ws"
    with p in_setitem [of p df tgt ws] have "snd p = ws" and "ws = map g vs"
      using map_err_Inr_map [of f vs ws g] g by auto
    then show ?thesis by blast
  qed
qed

lemma assign_member_other:
  assumes r: "assign src tgt f df = Inr df1" and p: "p \<in> set df1" "fst p \<noteq> tgt"
  shows "p \<in> set df"
  using assign_Inr [OF r] p in_setitem [of p df tgt] by auto

lemma transform_in_window:
  assumes t: "transform_storage_period today df = Inr df'"
    and a: "''Arrived @ Warehouse'' \<in> set (columns df)"
    and s: "''Scheduled Date'' \<in> set (columns df)"
  shows "storage_columns_in_window today df'"
proof -
  let ?r1 = "assign ''Arrived @ Warehouse'' ''Storage Starts''
     (clamp (first_day_prev_month today) (last_day_prev_month today) (first_day_prev_month today))"
  let ?r2 = "assign ''Scheduled Date'' ''Storage Ends''
     (clamp (first_day_prev_month today) (last_day_prev_month today) (last_day_prev_month today))"
  from t obtain df1 where r1: "?r1 df = Inr df1" and r2: "?r2 df1 = Inr df'"
    by (auto simp: transform_storage_period_def bind_def storage_starts_rule_assign
        storage_ends_rule_assign split: sum.splits)
  have s1: "''Scheduled Date'' \<in> set (columns df1)" using s assign_columns [OF r1] by simp
  show ?thesis
  proof (rule in_windowI)
    fix p assume p: "p \<in> set df'" "fst p = ''Storage Starts''"
    then have p1: "p \<in> set df1" using assign_member_other [OF r2, of p] by simp
    show "\<exists>vs. snd p = map (resolved_start today) vs"
      by (rule assign_target [OF r1 a p1 p(2), where g = "resolved_start today"]) (rule clamp_Inr_start)
  next
    fix p assume p: "p \<in> set df'" "fst p = ''Storage Ends''"
    show "\<exists>vs. snd p = map (resolved_end today) vs"
      by (rule assign_target [OF r2 s1 p, where g = "resolved_end today"]) (rule clamp_Inr_end)
  qed
qed

lemma last_before_first:
  "1 < fst today \<Longrightarrow> last_day_prev_month today < first_day_this_month today"
  by (cases today)
     (auto simp: last_day_prev_month_def first_day_this_month_def minus_one_day_def)

lemma resolved_start_stored:
  "1 < fst today \<Longrightarrow> \<not> late_on_last_day today c \<Longrightarrow> resolved_start today c = stored_start today c"
  using last_before_first [of today]
  by (cases c) (auto simp: resolved_start_def stored_start_def late_on_last_day_def
      in_window_def reference_window_def)

lemma resolved_end_stored:
  "1 < fst today \<Longrightarrow> \<not> late_on_last_day today c \<Longrightarrow> resolved_end today c = stored_end today c"
  using last_before_first [of today]
  by (cases c) (auto simp: resolved_end_def stored_end_def late_on_last_day_def
      in_window_def reference_window_def)

lemma follows_start: "1 < fst today \<Longrightarrow> follows_rule (stored_start today) today a (map (resolved_start today) a)"
  using resolved_start_stored [of today]
  by (simp add: follows_rule_def list_all2_map2 list_all2_same) blast

lemma follows_end: "1 < fst today \<Longrightarrow> follows_rule (stored_end today) today a (map (resolved_end today) a)"
  using resolved_end_stored [of today]
  by (simp add: follows_rule_def list_all2_map2 list_all2_same) blast

lemma labelled_distinct:
  "distinct (columns df) \<Longrightarrow> labelled c df = (case map_of df c of Some vs \<Rightarrow> [(c, vs)] | None \<Rightarrow> [])"
proof (induction df)
  case Nil
  then show ?case by (simp add: labelled_def)
next
  case (Cons p df)
  obtain n vs where p: "p = (n, vs)" by (cases p)
  from Cons.prems have d: "distinct (columns df)" and n: "n \<notin> set (columns df)"
    by (simp_all add: columns_def p)
  have "map_of df n = None" using n by (simp add: columns_def map_of_eq_None_iff)
  moreover have "labelled c (p # df) = (if n = c then [(n, vs)] else []) @ labelled c df"
    by (simp add: labelled_def p)
  ultimately show ?case using Cons.IH [OF d] by (auto simp: p split: option.splits)
qed

lemma getitem_distinct:
  "distinct (columns df) \<Longrightarrow>
   getitem df c = (case map_of df c of Some vs \<Rightarrow> Inr vs | None \<Rightarrow> Inl KeyError)"
  by (simp add: getitem_labelled labelled_distinct split: option.splits)

lemma in_columns_map_of: "c \<in> set (columns df) \<longleftrightarrow> map_of df c \<noteq> None"
  by (simp add: columns_def map_of_eq_None_iff)

lemma map_of_setitem:
  assumes "distinct (columns df)"
  shows "map_of (setitem df c vs) = (map_of df)(c \<mapsto> vs)"
proof (cases "c \<in> set (columns df)")
  case False
  then have n: "map_of df c = None" by (simp add: in_columns_map_of)
  have "map_of (df @ [(c, vs)]) c' = ((map_of df)(c \<mapsto> vs)) c'" for c'
    using n by (cases "map_of df c'") (auto simp: map_of_append map_add_def)
  with False show ?thesis by (simp add: setitem_def fun_eq_iff)
next
  case True
  then have s: "map_of df c \<noteq> None" by (simp add: in_columns_map_of)
  have m: "map_of (map (\<lambda>(n, old). if n = c then (n, vs) else (n, old)) xs) c'
          = (if c' = c then map_option (\<lambda>old. vs) (map_of xs c) else map_of xs c')" for c' xs
  proof (induction xs)
    case Nil
    then show ?case by simp
  next
    case (Cons p xs)
    obtain n old where p: "p = (n, old)" by (cases p)
    show ?case using Cons by (cases "c' = c") (simp_all add: p)
  qed
  have "map_of (setitem df c vs) c' = ((map_of df)(c \<mapsto> vs)) c'" for c'
    using True s by (cases "map_of df c") (simp_all add: setitem_def m)
  then show ?thesis by (rule ext)
qed

lemma distinct_setitem: "distinct (columns df) \<Longrightarrow> distinct (columns (setitem df c vs))"
proof (cases "c \<in> set (columns df)")
  case True
  assume "distinct (columns df)"
  with True show ?thesis by (simp add: columns_setitem)
next
  case False
  assume "distinct (columns df)"
  with False show ?thesis by (simp add: setitem_def columns_def)
qed

lemma map_err_text:
  assumes "\<And>c. is_other c \<Longrightarrow> f c = Inl TypeError" and "\<And>c. \<not> is_other c \<Longrightarrow> \<exists>y. f c = Inr y"
    and "list_ex is_other vs"
  shows "map_err f vs = Inl TypeError"
  using assms(3)
proof (induction vs)
  case Nil
  then show ?case by simp
next
  case (Cons v vs)
  show ?case
  proof (cases "is_other v")
    case True
    then show ?thesis by (simp add: bind_def assms(1))
  next
    case False
    with Cons have "map_err f vs = Inl TypeError" by simp
    moreover from False obtain y where "f v = Inr y" using assms(2) by blast
    ultimately show ?thesis by (simp add: bind_def)
  qed
qed

lemma clamp_text: "is_other c \<Longrightarrow> clamp lo hi d c = Inl TypeError"
  by (cases c) (simp_all add: is_other_def)

lemma clamp_no_text: "\<not> is_other c \<Longrightarrow> \<exists>y. clamp lo hi d c = Inr y"
  by (cases c) (simp_all add: is_other_def)

lemma rule_outcome:
  assumes d: "distinct (columns df)" and ne: "src \<noteq> tgt"
    and ok: "\<And>c. \<not> is_other c \<Longrightarrow> clamp lo hi dflt c = Inr (g c)"
  shows "(src \<in> set (columns df) \<and> tgt \<in> set (columns df) \<and> has_text df src
            \<longrightarrow> assign src tgt (clamp lo hi dflt) df = Inl TypeError)
       \<and> (\<not> (src \<in> set (columns df) \<and> tgt \<in> set (columns df) \<and> has_text df src)
            \<longrightarrow> (\<exists>df'. assign src tgt (clamp lo hi dflt) df = Inr df'
                   \<and> columns df' = columns df
                   \<and> (\<forall>n. n \<noteq> tgt \<longrightarrow> map_of df' n = map_of df n)
                   \<and> (if src \<in> set (columns df) \<and> tgt \<in> set (columns df)
                       then \<exists>a. map_of df src = Some a \<and> map_of df' tgt = Some (map g a)
                       else map_of df' tgt = map_of df tgt)))"
proof (cases "src \<in> set (columns df) \<and> tgt \<in> set (columns df)")
  case False
  then show ?thesis by (auto simp: assign_def)
next
  case True
  then obtain a where a: "map_of df src = Some a" by (auto simp: in_columns_map_of)
  then have g: "getitem df src = Inr a" using d by (simp add: getitem_distinct)
  show ?thesis
  proof (cases "has_text df src")
    case True
    then have "list_ex is_other a" using a by (simp add: has_text_def)
    then have "map_err (clamp lo hi dflt) a = Inl TypeError"
      by (intro map_err_text clamp_text clamp_no_text)
    with True \<open>src \<in> set (columns df) \<and> tgt \<in> set (columns df)\<close> g show ?thesis
      by (simp add: assign_def bind_def)
  next
    case False
    then have "\<forall>c \<in> set a. \<not> is_other c" using a by (simp add: has_text_def list_ex_iff)
    then have "map_err (clamp lo hi dflt) a = Inr (map g a)"
      by (intro map_err_total ok) simp
    then have r: "assign src tgt (clamp lo hi dflt) df = Inr (setitem df tgt (map g a))"
      using True g by (simp add: assign_def bind_def)
    have "columns (setitem df tgt (map g a)) = columns df" using True by (simp add: columns_setitem)
    moreover have "\<forall>n. n \<noteq> tgt \<longrightarrow> map_of (setitem df tgt (map g a)) n = map_of df n"
      using d by (simp add: map_of_setitem)
    moreover have "map_of (setitem df tgt (map g a)) tgt = Some (map g a)"
      using d by (simp add: map_of_setitem)
    ultimately show ?thesis using r a True False by auto
  qed
qed

lemma has_text_cong: "map_of df1 c = map_of df c \<Longrightarrow> has_text df1 c = has_text df c"
  by (simp add: has_text_def)

lemma transform_outcome:
  assumes d: "distinct (columns df)" and y: "1 < fst today"
  shows "(reads_text df \<longrightarrow> transform_storage_period today df = Inl TypeError)
       \<and> (\<not> reads_text df \<longrightarrow>
            (\<exists>df'. transform_storage_period today df = Inr df' \<and> columns df' = columns df
               \<and> (\<forall>n. n \<noteq> ''Storage Starts'' \<and> n \<noteq> ''Storage Ends'' \<longrightarrow> map_of df' n = map_of df n)
               \<and> (if ''Arrived @ Warehouse'' \<in> set (columns df) \<and> ''Storage Starts'' \<in> set (columns df)
                   then \<exists>a ws. map_of df ''Arrived @ Warehouse'' = Some a
                          \<and> map_of df' ''Storage Starts'' = Some ws
                          \<and> follows_rule (stored_start today) today a ws
                   else map_of df' ''Storage Starts'' = map_of df ''Storage Starts'')
               \<and> (if ''Scheduled Date'' \<in> set (columns df) \<and> ''Storage Ends'' \<in> set (columns df)
                   then \<exists>s us. map_of df ''Scheduled Date'' = Some s
                          \<and> map_of df' ''Storage Ends'' = Some us
                          \<and> follows_rule (stored_end today) today s us
                   else map_of df' ''Storage Ends'' = map_of df ''Storage Ends'')))"
proof -
  let ?lo = "first_day_prev_month today" and ?hi = "last_day_prev_month today"
  let ?A = "''Arrived @ Warehouse''" and ?SS = "''Storage Starts''"
  let ?SD = "''Scheduled Date''" and ?SE = "''Storage Ends''"
  let ?p1 = "?A \<in> set (columns df) \<and> ?SS \<in> set (columns df)"
  let ?p2 = "?SD \<in> set (columns df) \<and> ?SE \<in> set (columns df)"
  have t: "transform_storage_period today df
             = bind (assign ?A ?SS (clamp ?lo ?hi ?lo) df) (assign ?SD ?SE (clamp ?lo ?hi ?hi))"
    by (simp add: transform_storage_period_def storage_starts_rule_assign storage_ends_rule_assign)
  note r1 = rule_outcome [OF d, of ?A ?SS ?lo ?hi ?lo "resolved_start today", OF _ clamp_start_eq]
  show ?thesis
  proof (cases "?p1 \<and> has_text df ?A")
    case True
    with r1 have "assign ?A ?SS (clamp ?lo ?hi ?lo) df = Inl TypeError" by simp
    then have "transform_storage_period today df = Inl TypeError" by (simp add: t bind_def)
    moreover have "reads_text df" using True by (simp add: reads_text_def)
    ultimately show ?thesis by simp
  next
    case False
    with r1 obtain df1 where a1: "assign ?A ?SS (clamp ?lo ?hi ?lo) df = Inr df1"
      and c1: "columns df1 = columns df"
      and m1: "\<forall>n. n \<noteq> ?SS \<longrightarrow> map_of df1 n = map_of df n"
      and s1: "if ?p1 then \<exists>a. map_of df ?A = Some a \<and> map_of df1 ?SS = Some (map (resolved_start today) a)
               else map_of df1 ?SS = map_of df ?SS"
      by auto
    have d1: "distinct (columns df1)" using d c1 by simp
    have h1: "has_text df1 ?SD = has_text df ?SD" using m1 by (intro has_text_cong) simp
    note r2 = rule_outcome [OF d1, of ?SD ?SE ?lo ?hi ?hi "resolved_end today", OF _ clamp_end_eq]
    have t1: "transform_storage_period today df = assign ?SD ?SE (clamp ?lo ?hi ?hi) df1"
      by (simp add: t a1 bind_def)
    show ?thesis
    proof (cases "?p2 \<and> has_text df ?SD")
      case True
      with r2 c1 h1 have "assign ?SD ?SE (clamp ?lo ?hi ?hi) df1 = Inl TypeError" by simp
      moreover have "reads_text df" using True by (simp add: reads_text_def)
      ultimately show ?thesis by (simp add: t1)
    next
      case False2: False
      with r2 c1 h1 obtain df' where a2: "assign ?SD ?SE (clamp ?lo ?hi ?hi) df1 = Inr df'"
        and c2: "columns df' = columns df1"
        and m2: "\<forall>n. n \<noteq> ?SE \<longrightarrow> map_of df' n = map_of df1 n"
        and s2: "if ?p2 then \<exists>s. map_of df1 ?SD = Some s \<and> map_of df' ?SE = Some (map (resolved_end today) s)
                 else map_of df' ?SE = map_of df1 ?SE"
        by auto
      have nr: "\<not> reads_text df" using False False2 by (simp add: reads_text_def)
      have 1: "transform_storage_period today df = Inr df'" by (simp add: t1 a2)
      have 2: "columns df' = columns df" using c1 c2 by simp
      have 3: "\<forall>n. n \<noteq> ?SS \<and> n \<noteq> ?SE \<longrightarrow> map_of df' n = map_of df n" using m1 m2 by simp
      have ss: "map_of df' ?SS = map_of df1 ?SS" using m2 by simp
      have 4: "if ?p1 then \<exists>a ws. map_of df ?A = Some a \<and> map_of df' ?SS = Some ws
                          \<and> follows_rule (stored_start today) today a ws
               else map_of df' ?SS = map_of df ?SS"
      proof (cases ?p1)
        case True
        with s1 obtain a where "map_of df ?A = Some a" "map_of df1 ?SS = Some (map (resolved_start today) a)"
          by auto
        with ss follows_start [OF y, of a] True show ?thesis by auto
      next
        case False
        with s1 ss show ?thesis by auto
      qed
      have sd: "map_of df1 ?SD = map_of df ?SD" "map_of df1 ?SE = map_of df ?SE" using m1 by simp_all
      have 5: "if ?p2 then \<exists>s us. map_of df ?SD = Some s \<and> map_of df' ?SE = Some us
                          \<and> follows_rule (stored_end today) today s us
               else map_of df' ?SE = map_of df ?SE"
      proof (cases ?p2)
        case True
        with s2 sd obtain s where "map_of df ?SD = Some s" "map_of df' ?SE = Some (map (resolved_end today) s)"
          by auto
        with follows_end [OF y, of s] True show ?thesis by auto
      next
        case False
        with s2 sd show ?thesis by auto
      qed
      show ?thesis using nr 1 2 3 4 5 by blast
    qed
  qed
qed

lemma report_outcome:
  assumes d: "distinct (columns df)" and y: "1 < fst today"
  shows "(''Arrived @ Warehouse'' \<notin> set (columns df) \<or> ''Scheduled Date'' \<notin> set (columns df)
            \<longrightarrow> report_storage_period parse today df = Inl KeyError)
       \<and> (''Arrived @ Warehouse'' \<in> set (columns df) \<and> ''Scheduled Date'' \<in> set (columns df)
            \<longrightarrow> (\<exists>df' a s ws us. report_storage_period parse today df = Inr df'
                   \<and> map_of df ''Arrived @ Warehouse'' = Some a \<and> map_of df ''Scheduled Date'' = Some s
                   \<and> map_of df' ''Storage Starts'' = Some ws
                   \<and> follows_rule (stored_start today) today (map (to_datetime parse) a) ws
                   \<and> map_of df' ''Storage Ends'' = Some us
                   \<and> follows_rule (stored_end today) today (map (to_datetime parse) s) us))"
proof (intro conjI impI)
  assume n: "''Arrived @ Warehouse'' \<notin> set (columns df) \<or> ''Scheduled Date'' \<notin> set (columns df)"
  show "report_storage_period parse today df = Inl KeyError"
  proof (cases "''Arrived @ Warehouse'' \<in> set (columns df)")
    case False
    then have "getitem df ''Arrived @ Warehouse'' = Inl KeyError"
      using d by (simp add: getitem_distinct in_columns_map_of)
    then show ?thesis by (simp add: report_storage_period_def bind_def)
  next
    case True
    then obtain a where "getitem df ''Arrived @ Warehouse'' = Inr a"
      using d by (auto simp: getitem_distinct in_columns_map_of)
    moreover from True n have "getitem df ''Scheduled Date'' = Inl KeyError"
      using d by (simp add: getitem_distinct in_columns_map_of)
    then have "getitem (setitem df ''Arrived @ Warehouse'' (map (to_datetime parse) a)) ''Scheduled Date''
                 = Inl KeyError"
      by (simp add: getitem_setitem_other)
    ultimately show ?thesis by (simp add: report_storage_period_def bind_def Let_def)
  qed
next
  assume p: "''Arrived @ Warehouse'' \<in> set (columns df) \<and> ''Scheduled Date'' \<in> set (columns df)"
  then obtain a s where ma: "map_of df ''Arrived @ Warehouse'' = Some a"
    and ms: "map_of df ''Scheduled Date'' = Some s"
    by (auto simp: in_columns_map_of)
  then have ga: "getitem df ''Arrived @ Warehouse'' = Inr a" and gs: "getitem df ''Scheduled Date'' = Inr s"
    using d by (simp_all add: getitem_distinct)
  let ?a = "map (to_datetime parse) a" and ?s = "map (to_datetime parse) s"
  let ?d2 = "setitem (setitem df ''Arrived @ Warehouse'' ?a) ''Scheduled Date'' ?s"
  let ?d3 = "setitem ?d2 ''Storage Starts'' (map (resolved_start today) ?a)"
  let ?d4 = "setitem ?d3 ''Storage Ends'' (map (resolved_end today) ?s)"
  have r: "report_storage_period parse today df = Inr ?d4" using ga gs by (rule report_result)
  have d2: "distinct (columns ?d2)" using d by (intro distinct_setitem)
  have d3: "distinct (columns ?d3)" using d2 by (rule distinct_setitem)
  have "map_of ?d4 ''Storage Starts'' = Some (map (resolved_start today) ?a)"
    using d2 d3 by (simp add: map_of_setitem)
  moreover have "map_of ?d4 ''Storage Ends'' = Some (map (resolved_end today) ?s)"
    using d3 by (simp add: map_of_setitem)
  ultimately show "\<exists>df' a s ws us. report_storage_period parse today df = Inr df'
                   \<and> map_of df ''Arrived @ Warehouse'' = Some a \<and> map_of df ''Scheduled Date'' = Some s
                   \<and> map_of df' ''Storage Starts'' = Some ws
                   \<and> follows_rule (stored_start today) today (map (to_datetime parse) a) ws
                   \<and> map_of df' ''Storage Ends'' = Some us
                   \<and> follows_rule (stored_end today) today (map (to_datetime parse) s) us"
    using r ma ms follows_start [OF y, of ?a] follows_end [OF y, of ?s] by blast
qed

text \<open>
  C1 (as the code has it). Take a record set with distinct column names. The per-file
  step raises when a rule with both of its columns present meets a non-date scalar in
  its source column. Otherwise it returns, and changes nothing but the two storage
  columns: when \<open>Arrived @ Warehouse\<close> and \<open>Storage Starts\<close> are both present,
  Storage Starts becomes the arrival date if that lies in the Reference Window and the
  window's first day otherwise, and when one of the two is absent Storage Starts is left
  as it is; likewise for Storage Ends with \<open>Scheduled Date\<close> and the window's last day.
  The step of the report raises \<open>KeyError\<close> when a source column is absent and
  otherwise applies both rules to the converted source columns. Records whose source date
  is a timestamp on the window's last day after 00:00 are left open.
\<close>

theorem storage_period_rule:
  assumes "distinct (columns df)" and "1 < fst today"
  shows "((reads_text df \<longrightarrow> transform_storage_period today df = Inl TypeError)
          \<and> (\<not> reads_text df \<longrightarrow>
               (\<exists>df'. transform_storage_period today df = Inr df' \<and> columns df' = columns df
                  \<and> (\<forall>n. n \<noteq> ''Storage Starts'' \<and> n \<noteq> ''Storage Ends'' \<longrightarrow> map_of df' n = map_of df n)
                  \<and> (if ''Arrived @ Warehouse'' \<in> set (columns df) \<and> ''Storage Starts'' \<in> set (columns df)
                      then \<exists>a ws. map_of df ''Arrived @ Warehouse'' = Some a
                             \<and> map_of df' ''Storage Starts'' = Some ws
                             \<and> follows_rule (stored_start today) today a ws
                      else map_of df' ''Storage Starts'' = map_of df ''Storage Starts'')
                  \<and> (if ''Scheduled Date'' \<in> set (columns df) \<and> ''Storage Ends'' \<in> set (columns df)
                      then \<exists>s us. map_of df ''Scheduled Date'' = Some s
                             \<and> map_of df' ''Storage Ends'' = Some us
                             \<and> follows_rule (stored_end today) today s us
                      else map_of df' ''Storage Ends'' = map_of df ''Storage Ends''))))
       \<and> ((''Arrived @ Warehouse'' \<notin> set (columns df) \<or> ''Scheduled Date'' \<notin> set (columns df)
               \<longrightarrow> report_storage_period parse today df = Inl KeyError)
          \<and> (''Arrived @ Warehouse'' \<in> set (columns df) \<and> ''Scheduled Date'' \<in> set (columns df)
               \<longrightarrow> (\<exists>df' a s ws us. report_storage_period parse today df = Inr df'
                      \<and> map_of df ''Arrived @ Warehouse'' = Some a \<and> map_of df ''Scheduled Date'' = Some s
                      \<and> map_of df' ''Storage Starts'' = Some ws
                      \<and> follows_rule (stored_start today) today (map (to_datetime parse) a) ws
                      \<and> map_of df' ''Storage Ends'' = Some us
                      \<and> follows_rule (stored_end today) today (map (to_datetime parse) s) us)))"
  apply (rule conjI)
   apply (rule transform_outcome [OF assms])
  apply (rule report_outcome [OF assms])
  done

lemma file_frame_step: "transform_storage_period run_date file_frame = Inr file_frame_resolved"
  by code_simp

lemma report_frame_step: "report_storage_period no_parse run_date report_frame = Inr report_frame_resolved"
  by code_simp

lemma unscheduled_frame_step:
  "transform_storage_period run_date unscheduled_frame
     = Inr [(''Arrived @ Warehouse'', [Stamp (2026, 10, 5, 0)]),
            (''Storage Starts'', [Stamp (2026, 10, 5, 0)]),
            (''Storage Ends'', [Stamp (2026, 11, 15, 0)])]"
  by code_simp

theorem storage_period_rule_witness:
  "distinct (columns unscheduled_frame) \<and> 1 < fst run_date \<and> \<not> reads_text unscheduled_frame
   \<and> (\<exists>df'. transform_storage_period run_date unscheduled_frame = Inr df'
          \<and> columns df' = columns unscheduled_frame
          \<and> map_of df' ''Storage Ends'' = map_of unscheduled_frame ''Storage Ends''
          \<and> (\<exists>a ws. map_of unscheduled_frame ''Arrived @ Warehouse'' = Some a
                 \<and> map_of df' ''Storage Starts'' = Some ws
                 \<and> follows_rule (stored_start run_date) run_date a ws))
   \<and> report_storage_period no_parse run_date unscheduled_frame = Inl KeyError
   \<and> (\<exists>df' a s ws us. report_storage_period no_parse run_date file_frame = Inr df'
          \<and> map_of file_frame ''Arrived @ Warehouse'' = Some a
          \<and> map_of file_frame ''Scheduled Date'' = Some s
          \<and> map_of df' ''Storage Starts'' = Some ws
          \<and> follows_rule (stored_start run_date) run_date (map (to_datetime no_parse) a) ws
          \<and> map_of df' ''Storage Ends'' = Some us
          \<and> follows_rule (stored_end run_date) run_date (map (to_datetime no_parse) s) us)"
proof -
  have d1: "distinct (columns unscheduled_frame)"
    by (simp add: columns_def unscheduled_frame_def)
  have d2: "distinct (columns file_frame)"
    by (simp add: columns_def file_frame_def)
  have y: "1 < fst run_date"
    by (simp add: run_date_def)
  have n: "\<not> reads_text unscheduled_frame"
    by code_simp
  have p1: "''Arrived @ Warehouse'' \<in> set (columns unscheduled_frame)
            \<and> ''Storage Starts'' \<in> set (columns unscheduled_frame)"
    by (simp add: columns_def unscheduled_frame_def)
  have p2: "\<not> (''Scheduled Date'' \<in> set (columns unscheduled_frame)
               \<and> ''Storage Ends'' \<in> set (columns unscheduled_frame))"
    by (simp add: columns_def unscheduled_frame_def)
  have p2b: "''Arrived @ Warehouse'' \<notin> set (columns unscheduled_frame)
       \<or> ''Scheduled Date'' \<notin> set (columns unscheduled_frame)"
    by (simp add: columns_def unscheduled_frame_def)
  have p3: "''Arrived @ Warehouse'' \<in> set (columns file_frame)
            \<and> ''Scheduled Date'' \<in> set (columns file_frame)"
    by (simp add: columns_def file_frame_def)
  have w2: "report_storage_period no_parse run_date unscheduled_frame = Inl KeyError"
    by (rule mp [OF storage_period_rule [OF d1 y, of no_parse, THEN conjunct2, THEN conjunct1] p2b])
  have w3: "\<exists>df' a s ws us. report_storage_period no_parse run_date file_frame = Inr df'
          \<and> map_of file_frame ''Arrived @ Warehouse'' = Some a
          \<and> map_of file_frame ''Scheduled Date'' = Some s
          \<and> map_of df' ''Storage Starts'' = Some ws
          \<and> follows_rule (stored_start run_date) run_date (map (to_datetime no_parse) a) ws
          \<and> map_of df' ''Storage Ends'' = Some us
          \<and> follows_rule (stored_end run_date) run_date (map (to_datetime no_parse) s) us"
    by (rule mp [OF storage_period_rule [OF d2 y, of no_parse, THEN conjunct2, THEN conjunct2] p3])
  have w1: "\<exists>df'. transform_storage_period run_date unscheduled_frame = Inr df'
          \<and> columns df' = columns unscheduled_frame
          \<and> map_of df' ''Storage Ends'' = map_of unscheduled_frame ''Storage Ends''
          \<and> (\<exists>a ws. map_of unscheduled_frame ''Arrived @ Warehouse'' = Some a
                 \<and> map_of df' ''Storage Starts'' = Some ws
                 \<and> follows_rule (stored_start run_date) run_date a ws)"
  proof -
    note ex = mp [OF storage_period_rule [OF d1 y, of no_parse, THEN conjunct1, THEN conjunct2] n]
    from ex obtain df' where 1: "transform_storage_period run_date unscheduled_frame = Inr df'"
      and 2: "columns df' = columns unscheduled_frame"
      and 3: "if ''Arrived @ Warehouse'' \<in> set (columns unscheduled_frame)
                   \<and> ''Storage Starts'' \<in> set (columns unscheduled_frame)
              then \<exists>a ws. map_of unscheduled_frame ''Arrived @ Warehouse'' = Some a
                     \<and> map_of df' ''Storage Starts'' = Some ws
                     \<and> follows_rule (stored_start run_date) run_date a ws
              else map_of df' ''Storage Starts'' = map_of unscheduled_frame ''Storage Starts''"
      and 4: "if ''Scheduled Date'' \<in> set (columns unscheduled_frame)
                   \<and> ''Storage Ends'' \<in> set (columns unscheduled_frame)
              then \<exists>s us. map_of unscheduled_frame ''Scheduled Date'' = Some s
                     \<and> map_of df' ''Storage Ends'' = Some us
                     \<and> follows_rule (stored_end run_date) run_date s us
              else map_of df' ''Storage Ends'' = map_of unscheduled_frame ''Storage Ends''"
      by (elim exE conjE)
    from 3 have c3: "\<exists>a ws. map_of unscheduled_frame ''Arrived @ Warehouse'' = Some a
                     \<and> map_of df' ''Storage Starts'' = Some ws
                     \<and> follows_rule (stored_start run_date) run_date a ws"
      by (simp only: p1 if_True simp_thms)
    from 4 have c4: "map_of df' ''Storage Ends'' = map_of unscheduled_frame ''Storage Ends''"
      by (simp only: p2 if_False simp_thms)
    from 1 2 c3 c4 show ?thesis by (intro exI [of _ df'] conjI)
  qed
  show ?thesis
    by (intro conjI d1 y n w1 w2 w3)
qed

text \<open>
  C1 as stated fails: here \<open>Arrived @ Warehouse\<close> is present and there is no column
  \<open>Scheduled Date\<close>; the per-file step leaves Storage Ends at 2026-11-15, which is
  neither a scheduled date inside the window nor the window's last day, 2026-10-31.
\<close>

theorem storage_ends_untouched_counterexample:
  "transform_storage_period (2026, 11, 4, 0)
     [(''Arrived @ Warehouse'', [Stamp (2026, 10, 5, 0)]),
      (''Storage Starts'', [Null]),
      (''Storage Ends'', [Stamp (2026, 11, 15, 0)])]
   = Inr [(''Arrived @ Warehouse'', [Stamp (2026, 10, 5, 0)]),
          (''Storage Starts'', [Stamp (2026, 10, 5, 0)]),
          (''Storage Ends'', [Stamp (2026, 11, 15, 0)])]
   \<and> last_day_prev_month (2026, 11, 4, 0) = (2026, 10, 31, 0)"
  by code_simp

lemma storage_period_idempotent:
  "(transform_storage_period today df = Inr df1 \<longrightarrow> transform_storage_period today df1 = Inr df1)
   \<and> (report_storage_period parse today df = Inr df2 \<longrightarrow> report_storage_period parse today df2 = Inr df2)"
  using transform_idem [of today df df1] report_idem [of parse today df df2] by blast

lemma late_pruned: "map (\<lambda>df. dropna_all (widen (all_columns [late_frame_resolved]) df)) [late_frame_resolved]
             = [late_frame_resolved]"
  by code_simp
lemma late_stacked: "concat_frames [late_frame_resolved] = Inr late_frame_resolved"
  by code_simp
lemma late_renamed: "rename_columns late_frame_resolved = late_frame_resolved"
  by code_simp
lemma late_no_ship_date: "''Estimated Ship Date'' \<notin> set (columns late_frame_resolved)"
  by code_simp
lemma late_arrived: "getitem late_frame_resolved ''Arrived @ Warehouse'' = Inr [Stamp (2026, 10, 31, 30600)]"
  by code_simp
lemma late_arrived_cut: "setitem late_frame_resolved ''Arrived @ Warehouse''
             (map (\<lambda>v. to_date (to_datetime no_parse v)) [Stamp (2026, 10, 31, 30600)])
             = late_frame_consolidated"
  by code_simp
lemma late_reordered: "reorder late_frame_consolidated = late_frame_consolidated"
  by code_simp

lemma format_dates_absent:
  "col \<notin> set (columns df) \<Longrightarrow> format_dates parse (col # cols) df = format_dates parse cols df"
  by simp

lemma format_dates_present:
  "getitem df col = Inr vs \<Longrightarrow>
   format_dates parse (col # cols) df
     = format_dates parse cols (setitem df col (map (\<lambda>v. to_date (to_datetime parse v)) vs))"
  using getitem_in_columns [of df col vs] by (simp add: bind_def)

lemma late_no_date_stripped: "''Date Stripped'' \<notin> set (columns late_frame_consolidated)"
  by code_simp
lemma late_no_time: "''Scheduled Time'' \<notin> set (columns late_frame_consolidated)"
  by code_simp
lemma late_starts: "getitem late_frame_consolidated ''Storage Starts'' = Inr [Stamp (2026, 10, 1, 0)]"
  by code_simp
lemma late_ends: "getitem late_frame_consolidated ''Storage Ends'' = Inr [Stamp (2026, 10, 31, 0)]"
  by code_simp
lemma late_scheduled: "getitem late_frame_consolidated ''Scheduled Date'' = Inr [Stamp (2026, 11, 20, 0)]"
  by code_simp
lemma late_starts_cut: "setitem late_frame_consolidated ''Storage Starts''
             (map (\<lambda>v. to_date (to_datetime no_parse v)) [Stamp (2026, 10, 1, 0)])
             = late_frame_consolidated"
  by code_simp
lemma late_ends_cut: "setitem late_frame_consolidated ''Storage Ends''
             (map (\<lambda>v. to_date (to_datetime no_parse v)) [Stamp (2026, 10, 31, 0)])
             = late_frame_consolidated"
  by code_simp
lemma late_scheduled_cut: "setitem late_frame_consolidated ''Scheduled Date''
             (map (\<lambda>v. to_date (to_datetime no_parse v)) [Stamp (2026, 11, 20, 0)])
             = late_frame_consolidated"
  by code_simp

lemma late_dates: "format_dates no_parse DATE_COLUMNS late_frame_resolved = Inr late_frame_consolidated"
  unfolding DATE_COLUMNS_def
  by (simp only: format_dates_absent [OF late_no_ship_date] format_dates_present [OF late_arrived] late_arrived_cut
        format_dates_present [OF late_starts] late_starts_cut format_dates_present [OF late_ends] late_ends_cut
        format_dates_present [OF late_scheduled] late_scheduled_cut format_dates_absent [OF late_no_date_stripped] format_dates.simps(1))

lemma late_formatted: "format_date_columns no_parse id late_frame_resolved = Inr late_frame_consolidated"
  by (simp only: format_date_columns_def late_dates bind_def sum.case late_no_time if_False)

lemma late_frame_consolidation: "consolidate_dataframes no_parse id [late_frame_resolved] = Inr late_frame_consolidated"
  by (simp only: consolidate_dataframes_def Let_def late_pruned late_stacked late_renamed late_formatted late_reordered bind_def sum.case)

text \<open>
  C2 (evaluation at the failing input). Each step alone is idempotent (lemma
  \<open>storage_period_idempotent\<close>), but the second application in the pipeline changes a
  table that the first has resolved. The record arrived on 2026-10-31 at 08:30: the
  per-file step finds it after the last day at 00:00 and sets Storage Starts to
  2026-10-01; consolidation cuts the arrival to its date; the step of the report then
  finds the arrival inside the window and sets Storage Starts to 2026-10-31.
\<close>

theorem second_pass_changes_resolved_table:
  "transform_storage_period run_date late_frame = Inr late_frame_resolved
   \<and> consolidate_dataframes no_parse id [late_frame_resolved] = Inr late_frame_consolidated
   \<and> report_storage_period no_parse run_date late_frame_consolidated = Inr late_frame_reported
   \<and> late_frame_reported \<noteq> late_frame_consolidated
   \<and> map_of late_frame_consolidated ''Storage Starts'' = Some [Stamp (2026, 10, 1, 0)]
   \<and> map_of late_frame_reported ''Storage Starts'' = Some [Stamp (2026, 10, 31, 0)]"
proof -
  have 1: "transform_storage_period run_date late_frame = Inr late_frame_resolved"
    by code_simp
  have 3: "report_storage_period no_parse run_date late_frame_consolidated = Inr late_frame_reported"
    by code_simp
  have 4: "late_frame_reported \<noteq> late_frame_consolidated"
    by code_simp
  have 5: "map_of late_frame_consolidated ''Storage Starts'' = Some [Stamp (2026, 10, 1, 0)]"
    by code_simp
  have 6: "map_of late_frame_reported ''Storage Starts'' = Some [Stamp (2026, 10, 31, 0)]"
    by code_simp
  show ?thesis
    by (intro conjI 1 late_frame_consolidation 3 4 5 6)
qed

text \<open>
  C10 (as the code has it). After the step of the report every Storage Starts and every
  Storage Ends value is a timestamp inside the window. After the per-file step the same
  holds when the frame has the columns \<open>Arrived @ Warehouse\<close> and \<open>Scheduled Date\<close>.
\<close>

theorem storage_period_in_window:
  "(report_storage_period parse today df = Inr df1 \<longrightarrow> storage_columns_in_window today df1)
   \<and> (''Arrived @ Warehouse'' \<in> set (columns df) \<and> ''Scheduled Date'' \<in> set (columns df)
        \<and> transform_storage_period today df = Inr df2 \<longrightarrow> storage_columns_in_window today df2)"
  using report_in_window [of parse today df df1] transform_in_window [of today df df2] by blast

theorem storage_period_in_window_witness:
  "report_storage_period no_parse run_date report_frame = Inr report_frame_resolved
   \<and> storage_columns_in_window run_date report_frame_resolved
   \<and> ''Arrived @ Warehouse'' \<in> set (columns file_frame)
   \<and> ''Scheduled Date'' \<in> set (columns file_frame)
   \<and> transform_storage_period run_date file_frame = Inr file_frame_resolved
   \<and> storage_columns_in_window run_date file_frame_resolved"
proof -
  have c: "''Arrived @ Warehouse'' \<in> set (columns file_frame)"
    "''Scheduled Date'' \<in> set (columns file_frame)"
    by (simp_all add: columns_def file_frame_def)
  show ?thesis
    using c file_frame_step report_frame_step
      storage_period_in_window [where today = run_date and df = report_frame
        and ?df1.0 = report_frame_resolved and parse = no_parse and ?df2.0 = report_frame]
      storage_period_in_window [where today = run_date and df = file_frame
        and ?df1.0 = report_frame and parse = no_parse and ?df2.0 = file_frame_resolved]
    by blast
qed

text \<open>
  C10 as stated fails for the per-file step: without a column \<open>Arrived @ Warehouse\<close>
  the step leaves Storage Starts as it was, here outside the window.
\<close>

theorem storage_starts_outside_window_counterexample:
  "transform_storage_period (2026, 11, 4, 0)
     [(''Storage Starts'', [Stamp (2026, 12, 25, 0)]), (''Storage Ends'', [Null])]
   = Inr [(''Storage Starts'', [Stamp (2026, 12, 25, 0)]), (''Storage Ends'', [Null])]
   \<and> \<not> storage_columns_in_window (2026, 11, 4, 0)
        [(''Storage Starts'', [Stamp (2026, 12, 25, 0)]), (''Storage Ends'', [Null])]"
  by code_simp

section \<open>Properties of consolidation\<close>

lemma columns_dropna_widen: "set (columns (dropna_all (widen cols df))) = live df"
proof -
  have "dropna_all (widen cols df) = dropna_all df"
    by (simp add: dropna_all_def widen_def filter_empty_conv)
  moreover have "set (columns (dropna_all df)) = live df"
    by (force simp: columns_def dropna_all_def live_def)
  ultimately show ?thesis by simp
qed

lemma columns_positional:
  "columns (map (\<lambda>i. (columns df0 ! i, f i)) [0..<length df0]) = columns df0"
proof -
  have "columns (map (\<lambda>i. (columns df0 ! i, f i)) [0..<length df0])
        = map (\<lambda>i. columns df0 ! i) [0..<length (columns df0)]"
    by (simp add: columns_def comp_def)
  then show ?thesis by (simp only: map_nth)
qed

lemma concat_frames_columns:
  assumes "concat_frames dfs = Inr C"
  shows "set (columns C) = (\<Union>df \<in> set dfs. set (columns df))"
proof (cases dfs)
  case Nil
  with assms show ?thesis by simp
next
  case (Cons df0 rest)
  show ?thesis
  proof (cases "\<forall>df \<in> set rest. columns df = columns df0")
    case True
    with assms Cons have "C = map (\<lambda>i. (columns df0 ! i, concat (map (\<lambda>df. snd (df ! i)) (df0 # rest))))
               [0..<length df0]" by simp
    then have "columns C = columns df0"
      by (simp only: columns_positional)
    with True Cons show ?thesis by auto
  next
    case False
    with assms Cons have "C = map (\<lambda>c. (c, concat (map (\<lambda>df. column_or_null df c) (df0 # rest))))
                  (union_columns (df0 # rest))"
      by (simp split: if_splits)
    then have "columns C = union_columns (df0 # rest)"
      by (simp add: columns_def comp_def)
    then show ?thesis using Cons by (auto simp: union_columns_def)
  qed
qed

lemma columns_rename: "columns (rename_columns df) = map clean_column (columns df)"
  by (simp add: columns_def rename_columns_def comp_def split_def)

lemma format_dates_columns: "format_dates parse cols df = Inr df' \<Longrightarrow> columns df' = columns df"
proof (induction cols arbitrary: df)
  case Nil
  then show ?case by simp
next
  case (Cons col cols)
  show ?case
  proof (cases "col \<in> set (columns df)")
    case True
    with Cons.prems obtain vs where
      "format_dates parse cols (setitem df col (map (\<lambda>v. to_date (to_datetime parse v)) vs)) = Inr df'"
      by (auto simp: bind_def split: sum.splits)
    from Cons.IH [OF this] True show ?thesis by (simp add: columns_setitem)
  next
    case False
    with Cons show ?thesis by simp
  qed
qed

lemma format_date_columns_columns:
  assumes "format_date_columns parse format_time df = Inr df'"
  shows "columns df' = columns df"
proof -
  from assms obtain df1 where 1: "format_dates parse DATE_COLUMNS df = Inr df1"
    and 2: "(if ''Scheduled Time'' \<in> set (columns df1) then
       bind (getitem df1 ''Scheduled Time'') (\<lambda>vs.
       Inr (setitem df1 ''Scheduled Time'' (map format_time vs)))
     else Inr df1) = Inr df'"
    by (auto simp: format_date_columns_def bind_def split: sum.splits)
  from 2 have "columns df' = columns df1"
    by (auto simp: bind_def columns_setitem split: if_splits sum.splits)
  with format_dates_columns [OF 1] show ?thesis by simp
qed

lemma columns_reorder: "set (columns (reorder df)) = set COLUMN_ORDER \<inter> set (columns df)"
  by (auto simp: reorder_def columns_def image_iff) force+

lemma clean_column_takeWhile: "clean_column col = takeWhile (\<lambda>c. c \<noteq> CHR ''_'') col"
proof (cases "CHR ''_'' \<in> set col")
  case True
  then show ?thesis by (simp add: clean_column_def)
next
  case False
  then have "takeWhile (\<lambda>c. c \<noteq> CHR ''_'') col = col"
    by (induction col) auto
  with False show ?thesis by (simp only: clean_column_def if_False)
qed

lemma distinct_COLUMN_ORDER: "distinct COLUMN_ORDER"
  by (simp add: COLUMN_ORDER_def)

lemma count_list_concat_replicate:
  "distinct xs \<Longrightarrow>
   count_list (concat (map (\<lambda>c. replicate (k c) c) xs)) c' = (if c' \<in> set xs then k c' else 0)"
proof (induction xs)
  case Nil
  then show ?case by simp
next
  case (Cons x xs)
  have r: "count_list (replicate n x) c' = (if x = c' then n else 0)" for n
    by (induction n) auto
  from Cons show ?case by (auto simp: r)
qed

lemma columns_filter_label:
  "columns (filter (\<lambda>(n, vs). n = c) df) = replicate (count_list (columns df) c) c"
  by (induction df) (auto simp: columns_def)

lemma columns_reorder_list:
  "columns (reorder df) =
     concat (map (\<lambda>c. replicate (count_list (columns df) c) c)
                 (filter (\<lambda>c. c \<in> set (columns df)) COLUMN_ORDER))"
proof -
  have "columns (concat (map f xs)) = concat (map (\<lambda>x. columns (f x)) xs)" for f :: "string \<Rightarrow> frame" and xs
    by (induction xs) (simp_all add: columns_def)
  then show ?thesis by (simp add: reorder_def columns_filter_label)
qed

lemma count_columns_reorder:
  "count_list (columns (reorder df)) c = (if c \<in> set COLUMN_ORDER then count_list (columns df) c else 0)"
proof -
  have "distinct (filter (\<lambda>c. c \<in> set (columns df)) COLUMN_ORDER)"
    using distinct_COLUMN_ORDER by simp
  from count_list_concat_replicate [OF this, of "count_list (columns df)" c]
  show ?thesis
    by (auto simp: columns_reorder_list count_list_0_iff)
qed

text \<open>
  C6 (as the code has it). Whenever consolidation returns a table, a name is a column of
  it if and only if it is one of the names of \<open>COLUMN_ORDER\<close> and some input record
  set holds a non-missing value in a column whose name, cut at its first underscore, is
  that name. A column that is missing throughout every file is therefore absent, and so
  is every column whose name is not in \<open>COLUMN_ORDER\<close>.
\<close>

theorem consolidated_columns:
  assumes "consolidate_dataframes parse format_time data_frames = Inr T"
  shows "set (columns T) =
           {c \<in> set COLUMN_ORDER. \<exists>df \<in> set data_frames. \<exists>(n, vs) \<in> set df.
                clean_column n = c \<and> (\<exists>v \<in> set vs. v \<noteq> Null)}"
proof -
  let ?dfs = "map (\<lambda>df. dropna_all (widen (all_columns data_frames) df)) data_frames"
  from assms obtain C F where C: "concat_frames ?dfs = Inr C"
    and F: "format_date_columns parse format_time (rename_columns C) = Inr F"
    and T: "T = reorder F"
    by (auto simp: consolidate_dataframes_def bind_def Let_def split: sum.splits)
  have "set (columns C) = (\<Union>df \<in> set data_frames. live df)"
    using concat_frames_columns [OF C] by (simp add: columns_dropna_widen)
  moreover have "columns F = map clean_column (columns C)"
    using format_date_columns_columns [OF F] by (simp add: columns_rename)
  ultimately have "set (columns T) = set COLUMN_ORDER \<inter> clean_column ` (\<Union>df \<in> set data_frames. live df)"
    by (simp add: T columns_reorder)
  then show ?thesis by (auto simp: live_def) 
qed

theorem consolidated_columns_witness:
  "consolidate_dataframes no_parse id
     [[(''Case #'', [Null]), (''Serial #'', [Other ''s1''])],
      [(''Case #'', [Other ''v'']), (''Foo'', [Other ''w''])]]
   = Inr [(''Case #'', [Null, Other ''v'']), (''Serial #'', [Other ''s1'', Null])]
   \<and> set (columns [(''Case #'', [Null, Other ''v'']), (''Serial #'', [Other ''s1'', Null])]) =
         {c \<in> set COLUMN_ORDER. \<exists>df \<in> set
              [[(''Case #'', [Null]), (''Serial #'', [Other ''s1''])],
               [(''Case #'', [Other ''v'']), (''Foo'', [Other ''w''])]].
            \<exists>(n, vs) \<in> set df. clean_column n = c \<and> (\<exists>v \<in> set vs. v \<noteq> Null)}"
proof -
  have h: "consolidate_dataframes no_parse id
     [[(''Case #'', [Null]), (''Serial #'', [Other ''s1''])],
      [(''Case #'', [Other ''v'']), (''Foo'', [Other ''w''])]]
   = Inr [(''Case #'', [Null, Other ''v'']), (''Serial #'', [Other ''s1'', Null])]"
    by code_simp
  from h consolidated_columns [OF h] show ?thesis by (rule conjI)
qed

text \<open>
  C6 as stated fails: column \<open>X\<close> is missing throughout the first file and holds a value
  in the second, and the consolidated table has no column \<open>X\<close> (no column at all).
\<close>

theorem schema_union_counterexample:
  "consolidate_dataframes no_parse id [[(''X'', [Null])], [(''X'', [Other ''v''])]] = Inr []"
  by code_simp

text \<open>
  C7 (as the code has it). Every column name is cut at its first underscore, whatever
  follows it; a name without an underscore is unchanged. Columns are not merged: for
  each name of \<open>COLUMN_ORDER\<close> the consolidated table has as many columns of that name
  as the stacked frames have columns whose cut name it is, and no column of another name.
\<close>

theorem suffix_collapse:
  assumes "concat_frames (map (\<lambda>df. dropna_all (widen (all_columns data_frames) df)) data_frames) = Inr C"
    and "consolidate_dataframes parse format_time data_frames = Inr T"
  shows "(\<forall>col. clean_column col = takeWhile (\<lambda>c. c \<noteq> CHR ''_'') col)
       \<and> (\<forall>c. count_list (columns T) c =
                (if c \<in> set COLUMN_ORDER then count_list (map clean_column (columns C)) c else 0))"
proof -
  from assms obtain F where F: "format_date_columns parse format_time (rename_columns C) = Inr F"
    and T: "T = reorder F"
    by (auto simp: consolidate_dataframes_def bind_def Let_def split: sum.splits)
  have "columns F = map clean_column (columns C)"
    using format_date_columns_columns [OF F] by (simp add: columns_rename)
  then show ?thesis
    by (simp add: T count_columns_reorder clean_column_takeWhile)
qed

lemma collapse_sample_stacked:
  "concat_frames (map (\<lambda>df. dropna_all (widen (all_columns
     [[(''Case #'', [Other ''a'']), (''Case #_1'', [Other ''b'']), (''Lot_No'', [Other ''7''])]]) df))
     [[(''Case #'', [Other ''a'']), (''Case #_1'', [Other ''b'']), (''Lot_No'', [Other ''7''])]])
   = Inr [(''Case #'', [Other ''a'']), (''Case #_1'', [Other ''b'']), (''Lot_No'', [Other ''7''])]"
  by code_simp

lemma collapse_sample_result:
  "consolidate_dataframes no_parse id
     [[(''Case #'', [Other ''a'']), (''Case #_1'', [Other ''b'']), (''Lot_No'', [Other ''7''])]]
   = Inr [(''Case #'', [Other ''a'']), (''Case #'', [Other ''b''])]"
  by code_simp

theorem suffix_collapse_witness:
  "consolidate_dataframes no_parse id
     [[(''Case #'', [Other ''a'']), (''Case #_1'', [Other ''b'']), (''Lot_No'', [Other ''7''])]]
   = Inr [(''Case #'', [Other ''a'']), (''Case #'', [Other ''b''])]
   \<and> (\<forall>c. count_list (columns [(''Case #'', [Other ''a'']), (''Case #'', [Other ''b''])]) c =
          (if c \<in> set COLUMN_ORDER
           then count_list (map clean_column
                  (columns [(''Case #'', [Other ''a'']), (''Case #_1'', [Other ''b'']),
                            (''Lot_No'', [Other ''7''])])) c
           else 0))"
  using collapse_sample_result
    suffix_collapse [OF collapse_sample_stacked collapse_sample_result]
  by blast

text \<open>
  C7 as stated fails: \<open>Lot_No\<close>, whose underscore is no collision suffix, is renamed
  \<open>Lot\<close>; and \<open>Case #\<close> and \<open>Case #_1\<close> are not merged into one column holding the
  first value, the table keeps two columns named \<open>Case #\<close>.
\<close>

theorem suffix_collapse_counterexample:
  "clean_column ''Lot_No'' = ''Lot''
   \<and> consolidate_dataframes no_parse id
        [[(''Case #'', [Other ''a'']), (''Case #_1'', [Other ''b''])]]
      = Inr [(''Case #'', [Other ''a'']), (''Case #'', [Other ''b''])]"
  by code_simp

section \<open>Properties of the driver\<close>













end
